theory Spec2Isabelle
  imports Main "HOL-Library.Monad_Syntax" "HOL-Library.Multiset"
begin

section \<open>JavaScript values as the sync scripts see them\<close>

text \<open>
  The scripts read records that come out of \<^verbatim>\<open>response.json()\<close> and never declare a
  shape for them: every field is read defensively (\<^verbatim>\<open>x.f || default\<close>). The model keeps
  the records untyped. \<open>JUndefined\<close> is what a missing property reads as; a parsed JSON
  document never contains it, the objects the transform functions build do. Numbers are
  the integers (the only numbers the registry and the GitHub API send in the fields read
  here).
\<close>

datatype jsval =
    JUndefined
  | JNull
  | JBool bool
  | JNum int
  | JStr string
  | JArr "jsval list"
  | JObj "(string \<times> jsval) list"

text \<open>
  A function of the scripts that can throw returns an option: \<open>None\<close> is a thrown
  \<^verbatim>\<open>TypeError\<close> (the only exception the pure functions can raise).
\<close>

text \<open>ToBoolean: what \<^verbatim>\<open>!x\<close>, \<^verbatim>\<open>x || y\<close> and \<^verbatim>\<open>x ? a : b\<close> test.\<close>

fun truthy :: "jsval \<Rightarrow> bool" where
  "truthy JUndefined = False"
| "truthy JNull = False"
| "truthy (JBool b) = b"
| "truthy (JNum n) = (n \<noteq> 0)"
| "truthy (JStr s) = (s \<noteq> [])"
| "truthy (JArr xs) = True"
| "truthy (JObj fs) = True"

text \<open>\<^verbatim>\<open>a || b\<close>\<close>

definition orElse :: "jsval \<Rightarrow> jsval \<Rightarrow> jsval" where
  "orElse a b = (if truthy a then a else b)"

text \<open>
  \<^verbatim>\<open>x.f\<close>: a \<^verbatim>\<open>TypeError\<close> on \<^verbatim>\<open>undefined\<close> and \<^verbatim>\<open>null\<close>, the own property of an
  object, and \<^verbatim>\<open>undefined\<close> otherwise: none of the property names the scripts read is
  defined on the prototypes of strings, numbers, booleans, arrays or plain objects
  (\<^verbatim>\<open>length\<close> is read only through \<open>lengthOf\<close> below).
\<close>

fun get :: "jsval \<Rightarrow> string \<Rightarrow> jsval option" where
  "get JUndefined f = None"
| "get JNull f = None"
| "get (JObj fs) f = (case map_of fs f of Some v \<Rightarrow> Some v | None \<Rightarrow> Some JUndefined)"
| "get v f = Some JUndefined"

text \<open>\<^verbatim>\<open>x?.f\<close> and \<^verbatim>\<open>x?.[f]\<close>: never throws.\<close>

definition optGet :: "jsval \<Rightarrow> string \<Rightarrow> jsval" where
  "optGet v f = (case get v f of Some r \<Rightarrow> r | None \<Rightarrow> JUndefined)"

text \<open>
  \<^verbatim>\<open>xs.find(p)\<close> on an array: the first element the callback accepts, \<^verbatim>\<open>undefined\<close> when
  there is none; a callback that throws ends the search with its exception.
\<close>

fun js_find :: "(jsval \<Rightarrow> bool option) \<Rightarrow> jsval list \<Rightarrow> jsval option" where
  "js_find p [] = Some JUndefined"
| "js_find p (x # xs) =
     (case p x of None \<Rightarrow> None
      | Some True \<Rightarrow> Some x
      | Some False \<Rightarrow> js_find p xs)"

text \<open>
  \<^verbatim>\<open>v.map(f)\<close>: \<open>v\<close> must be an array (anything else has no callable \<^verbatim>\<open>map\<close>, a
  \<^verbatim>\<open>TypeError\<close>); the callbacks run in order and the first one to throw ends the call.
\<close>

definition js_map :: "(jsval \<Rightarrow> jsval option) \<Rightarrow> jsval \<Rightarrow> jsval list option" where
  "js_map f v = (case v of JArr xs \<Rightarrow> those (map f xs) | _ \<Rightarrow> None)"

section \<open>The safe file name\<close>

text \<open>\<^verbatim>\<open>name.replace(/\//g, '__')\<close>, in both scripts.\<close>

definition toSafeFileName :: "string \<Rightarrow> string" where
  "toSafeFileName name = concat (map (\<lambda>c. if c = CHR ''/'' then ''__'' else [c]) name)"

text \<open>
  Two names have their slashes at the same places, whatever their lengths: they differ
  only outside \<^verbatim>\<open>/\<close>. \<open>slashPositions\<close> lists the indices at which a name has a slash.
\<close>

fun slashesFrom :: "nat \<Rightarrow> string \<Rightarrow> nat list" where
  "slashesFrom i [] = []"
| "slashesFrom i (c # cs) =
     (if c = CHR ''/'' then i # slashesFrom (Suc i) cs else slashesFrom (Suc i) cs)"

definition slashPositions :: "string \<Rightarrow> nat list" where
  "slashPositions name = slashesFrom 0 name"

definition sameSlashes :: "string \<Rightarrow> string \<Rightarrow> bool" where
  "sameSlashes a b = (slashPositions a = slashPositions b)"

section \<open>Icon selection\<close>

definition getIconUrl :: "jsval \<Rightarrow> jsval option" where
  "getIconUrl icons =
     (case icons of
        JArr xs \<Rightarrow>
          if xs = [] then Some JNull
          else do {
            lightIcon \<leftarrow> js_find (\<lambda>icon. do { t \<leftarrow> get icon ''theme''; Some (t = JStr ''light'') }) xs;
            if truthy (optGet lightIcon ''src'') then get lightIcon ''src''
            else do {
              defaultIcon \<leftarrow> js_find (\<lambda>icon. do { t \<leftarrow> get icon ''theme''; Some (\<not> truthy t) }) xs;
              if truthy (optGet defaultIcon ''src'') then get defaultIcon ''src''
              else do {
                firstIcon \<leftarrow> js_find (\<lambda>icon. do { s \<leftarrow> get icon ''src''; Some (truthy s) }) xs;
                Some (orElse (optGet firstIcon ''src'') JNull)
              }
            }
          }
      | _ \<Rightarrow> Some JNull)"

text \<open>
  Vocabulary for the statements about icons: the theme and the source of a candidate,
  and a candidate that can be read at all (reading a property of \<^verbatim>\<open>null\<close> throws).
\<close>

definition iconTheme :: "jsval \<Rightarrow> jsval" where
  "iconTheme icon = optGet icon ''theme''"

definition iconSrc :: "jsval \<Rightarrow> jsval" where
  "iconSrc icon = optGet icon ''src''"

definition nonNullish :: "jsval \<Rightarrow> bool" where
  "nonNullish v = (v \<noteq> JUndefined \<and> v \<noteq> JNull)"

text \<open>The source of the first candidate a test accepts, \<^verbatim>\<open>undefined\<close> when it accepts none.\<close>

definition firstSrc :: "(jsval \<Rightarrow> bool) \<Rightarrow> jsval list \<Rightarrow> jsval" where
  "firstSrc p xs = (case List.find p xs of Some c \<Rightarrow> iconSrc c | None \<Rightarrow> JUndefined)"

section \<open>What the host provides\<close>

text \<open>
  Three conversions of the JavaScript engine are left as parameters, each for the
  operands on which the language leaves the work to string parsing:
  \<^item> \<open>dateValue v\<close>: the time value of \<^verbatim>\<open>new Date(v)\<close> in milliseconds for a string, an
    array or an object \<open>v\<close> (\<^verbatim>\<open>Date.parse\<close>, after \<^verbatim>\<open>ToPrimitive\<close>); \<open>None\<close> is an
    invalid date (\<^verbatim>\<open>NaN\<close>);
  \<^item> \<open>gtZero v\<close>: whether \<^verbatim>\<open>v > 0\<close> for a string, an array or an object \<open>v\<close>;
  \<^item> \<open>propertyKey v\<close>: the property key \<^verbatim>\<open>obj[v]\<close> reads for a \<open>v\<close> that is no string.
\<close>

record host =
  dateValue :: "jsval \<Rightarrow> int option"
  gtZero :: "jsval \<Rightarrow> bool"
  propertyKey :: "jsval \<Rightarrow> string"

text \<open>
  The time value of \<^verbatim>\<open>new Date(v)\<close>: a number is clipped to the range of dates
  (\<^verbatim>\<open>TimeClip\<close>), \<^verbatim>\<open>null\<close> and booleans go through \<^verbatim>\<open>ToNumber\<close>, \<^verbatim>\<open>undefined\<close> is invalid.
\<close>

definition newDate :: "host \<Rightarrow> jsval \<Rightarrow> int option" where
  "newDate h v =
     (case v of
        JNum n \<Rightarrow> if \<bar>n\<bar> \<le> 8640000000000000 then Some n else None
      | JBool b \<Rightarrow> Some (if b then 1 else 0)
      | JNull \<Rightarrow> Some 0
      | JUndefined \<Rightarrow> None
      | _ \<Rightarrow> dateValue h v)"

text \<open>\<^verbatim>\<open>a > b\<close> on two dates: false as soon as one of them is invalid.\<close>

definition dateGt :: "int option \<Rightarrow> int option \<Rightarrow> bool" where
  "dateGt a b = (case (a, b) of (Some x, Some y) \<Rightarrow> x > y | _ \<Rightarrow> False)"

section \<open>The Map of the scripts\<close>

text \<open>
  A \<^verbatim>\<open>Map\<close> keeps its entries in insertion order; \<^verbatim>\<open>set\<close> on a key it holds replaces the
  value in place. Keys are compared by \<^verbatim>\<open>SameValueZero\<close>: by value for primitives, by
  reference for arrays and objects, and two arrays or objects that come from parsed
  JSON are never the same reference.
\<close>

definition sameValueZero :: "jsval \<Rightarrow> jsval \<Rightarrow> bool" where
  "sameValueZero a b = (case a of JArr _ \<Rightarrow> False | JObj _ \<Rightarrow> False | _ \<Rightarrow> a = b)"

fun map_get :: "(jsval \<times> 'v) list \<Rightarrow> jsval \<Rightarrow> 'v option" where
  "map_get [] k = None"
| "map_get ((k', v) # m) k = (if sameValueZero k' k then Some v else map_get m k)"

fun map_set :: "(jsval \<times> 'v) list \<Rightarrow> jsval \<Rightarrow> 'v \<Rightarrow> (jsval \<times> 'v) list" where
  "map_set [] k v = [(k, v)]"
| "map_set ((k', v') # m) k v =
     (if sameValueZero k' k then (k', v) # m else (k', v') # map_set m k v)"

text \<open>A loop whose body can throw: the first exception ends it.\<close>

fun forEach :: "('s \<Rightarrow> 'a \<Rightarrow> 's option) \<Rightarrow> 's \<Rightarrow> 'a list \<Rightarrow> 's option" where
  "forEach f s [] = Some s"
| "forEach f s (x # xs) = (case f s x of None \<Rightarrow> None | Some s' \<Rightarrow> forEach f s' xs)"

section \<open>Deduplication\<close>

text \<open>\<^verbatim>\<open>item._meta?.['io.modelcontextprotocol.registry/official'] || {}\<close>\<close>

definition officialMeta :: "jsval \<Rightarrow> jsval option" where
  "officialMeta item = do {
     m \<leftarrow> get item ''_meta'';
     Some (orElse (optGet m ''io.modelcontextprotocol.registry/official'') (JObj []))
   }"

text \<open>\<^verbatim>\<open>item.server || {}\<close>\<close>

definition serverOf :: "jsval \<Rightarrow> jsval option" where
  "serverOf item = do { s \<leftarrow> get item ''server''; Some (orElse s (JObj [])) }"

text \<open>
  The body of the loop of \<^verbatim>\<open>deduplicateServers\<close>. \<open>server\<close>, \<open>meta\<close> and \<open>existingMeta\<close>
  are truthy, and so is \<open>existing\<close> where its \<^verbatim>\<open>_meta\<close> is read; reading a property of
  them cannot throw, which is \<open>optGet\<close>.
\<close>

definition dedupStep :: "host \<Rightarrow> (jsval \<times> jsval) list \<Rightarrow> jsval \<Rightarrow> (jsval \<times> jsval) list option" where
  "dedupStep h serverMap item = do {
     server \<leftarrow> serverOf item;
     meta \<leftarrow> officialMeta item;
     let name = optGet server ''name'';
     if \<not> truthy name then Some serverMap
     else
       let existing = (case map_get serverMap name of Some e \<Rightarrow> e | None \<Rightarrow> JUndefined) in
       if \<not> truthy existing then Some (map_set serverMap name item)
       else if truthy (optGet meta ''isLatest'') then Some (map_set serverMap name item)
       else
         let existingMeta = orElse (optGet (optGet existing ''_meta'')
                                     ''io.modelcontextprotocol.registry/official'') (JObj []);
             existingDate = newDate h (orElse (optGet existingMeta ''publishedAt'') (JNum 0));
             currentDate = newDate h (orElse (optGet meta ''publishedAt'') (JNum 0))
         in if dateGt currentDate existingDate then Some (map_set serverMap name item)
            else Some serverMap
   }"

definition deduplicateServers :: "host \<Rightarrow> jsval list \<Rightarrow> jsval list option" where
  "deduplicateServers h servers = map_option (map snd) (forEach (dedupStep h) [] servers)"

text \<open>Vocabulary for the statements about deduplication.\<close>

definition serverName :: "jsval \<Rightarrow> jsval" where
  "serverName item = optGet (orElse (optGet item ''server'') (JObj [])) ''name''"

definition metaOf :: "jsval \<Rightarrow> jsval" where
  "metaOf item = orElse (optGet (optGet item ''_meta'')
                   ''io.modelcontextprotocol.registry/official'') (JObj [])"

definition isLatest :: "jsval \<Rightarrow> bool" where
  "isLatest item = truthy (optGet (metaOf item) ''isLatest'')"

definition publishedTime :: "host \<Rightarrow> jsval \<Rightarrow> int option" where
  "publishedTime h item = newDate h (orElse (optGet (metaOf item) ''publishedAt'') (JNum 0))"

text \<open>A host whose \<^verbatim>\<open>Date.parse\<close> is a finite table, for evaluating on concrete records.\<close>

definition tableHost :: "(string \<times> int) list \<Rightarrow> host" where
  "tableHost tbl =
     \<lparr> dateValue = (\<lambda>v. case v of JStr s \<Rightarrow> map_of tbl s | _ \<Rightarrow> None),
       gtZero = (\<lambda>v. False),
       propertyKey = (\<lambda>v. ''[object Object]'') \<rparr>"

text \<open>
  For the proofs: the entries of the Map under one string key, and the Map whose every
  entry is stored under its record's own name.
\<close>

definition entries :: "string \<Rightarrow> (jsval \<times> jsval) list \<Rightarrow> (jsval \<times> jsval) list" where
  "entries n m = filter (\<lambda>p. fst p = JStr n) m"

definition keyed :: "(jsval \<times> jsval) list \<Rightarrow> bool" where
  "keyed m = list_all (\<lambda>p. serverName (snd p) = fst p) m"

text \<open>
  A registry record with the fields the deduplication reads (name, version, the
  \<^verbatim>\<open>isLatest\<close> flag and the publish timestamp), for evaluating on concrete inputs.
\<close>

definition registryRecord :: "string \<Rightarrow> string \<Rightarrow> bool \<Rightarrow> string \<Rightarrow> jsval" where
  "registryRecord name version latest published =
     JObj [(''server'', JObj [(''name'', JStr name), (''version'', JStr version)]),
           (''_meta'', JObj [(''io.modelcontextprotocol.registry/official'',
              JObj [(''isLatest'', JBool latest), (''publishedAt'', JStr published)])])]"

text \<open>Midnight UTC of 1 June and of 1 September 2025, in milliseconds since the epoch.\<close>

definition exampleHost :: host where
  "exampleHost = tableHost [(''2025-06-01T00:00:00Z'', 1748736000000),
                            (''2025-09-01T00:00:00Z'', 1756684800000)]"

section \<open>The installability filter\<close>

text \<open>\<^verbatim>\<open>SUPPORTED_REGISTRY_TYPES\<close>\<close>

definition SUPPORTED_REGISTRY_TYPES :: "jsval list" where
  "SUPPORTED_REGISTRY_TYPES = [JStr ''npm'', JStr ''pypi'', JStr ''oci'']"

text \<open>\<^verbatim>\<open>xs.includes(v)\<close> on an array.\<close>

definition js_includes :: "jsval list \<Rightarrow> jsval \<Rightarrow> bool" where
  "js_includes xs v = list_ex (\<lambda>x. sameValueZero x v) xs"

text \<open>\<^verbatim>\<open>v.filter(p)\<close>: as \<open>js_map\<close>, \<open>v\<close> must be an array and a callback that throws ends the call.\<close>

fun filterThrowing :: "('a \<Rightarrow> bool option) \<Rightarrow> 'a list \<Rightarrow> 'a list option" where
  "filterThrowing p [] = Some []"
| "filterThrowing p (x # xs) =
     (case p x of None \<Rightarrow> None
      | Some keep \<Rightarrow>
          (case filterThrowing p xs of None \<Rightarrow> None
           | Some ys \<Rightarrow> Some (if keep then x # ys else ys)))"

definition js_filter :: "(jsval \<Rightarrow> bool option) \<Rightarrow> jsval \<Rightarrow> jsval list option" where
  "js_filter p v = (case v of JArr xs \<Rightarrow> filterThrowing p xs | _ \<Rightarrow> None)"

text \<open>\<^verbatim>\<open>pkg => SUPPORTED_REGISTRY_TYPES.includes(pkg.registryType)\<close>\<close>

definition supportedPackage :: "jsval \<Rightarrow> bool option" where
  "supportedPackage pkg = do {
     t \<leftarrow> get pkg ''registryType'';
     Some (js_includes SUPPORTED_REGISTRY_TYPES t)
   }"

definition hasInstallableMethod :: "jsval \<Rightarrow> bool option" where
  "hasInstallableMethod item = do {
     server \<leftarrow> serverOf item;
     let packages = orElse (optGet server ''packages'') (JArr []);
     supportedPackages \<leftarrow> js_filter supportedPackage packages;
     Some (length supportedPackages > 0)
   }"

text \<open>
  The \<^verbatim>\<open>stats\<close> object, with the three counters of \<^verbatim>\<open>stats.filtered\<close> as fields of their
  own. \<^verbatim>\<open>registryTypes\<close> is the histogram of type tags; tags that name a property every
  object inherits (\<^verbatim>\<open>constructor\<close>, \<^verbatim>\<open>toString\<close>, ...) are not modelled.
\<close>

record filterStats =
  total_count :: nat
  installable :: nat
  noPackages :: nat
  onlyRemotes :: nat
  unsupportedRegistryType :: nat
  registryTypes :: "string \<Rightarrow> nat option"

text \<open>The callback of \<^verbatim>\<open>packages.forEach\<close>: one more package of its type tag.\<close>

definition countType :: "host \<Rightarrow> filterStats \<Rightarrow> jsval \<Rightarrow> filterStats option" where
  "countType h stats pkg = do {
     t \<leftarrow> get pkg ''registryType'';
     let ty = orElse t (JStr ''unknown'');
         key = (case ty of JStr s \<Rightarrow> s | _ \<Rightarrow> propertyKey h ty)
     in Some (stats\<lparr>registryTypes := (registryTypes stats)
                (key \<mapsto> (case registryTypes stats key of Some c \<Rightarrow> c | None \<Rightarrow> 0) + 1)\<rparr>)
   }"

definition js_forEach :: "('s \<Rightarrow> jsval \<Rightarrow> 's option) \<Rightarrow> 's \<Rightarrow> jsval \<Rightarrow> 's option" where
  "js_forEach f s v = (case v of JArr xs \<Rightarrow> forEach f s xs | _ \<Rightarrow> None)"

text \<open>
  \<^verbatim>\<open>x.length\<close>: the number of elements of an array and of characters of a string, the own
  property of an object, \<^verbatim>\<open>undefined\<close> on numbers and booleans.
\<close>

definition lengthOf :: "jsval \<Rightarrow> jsval option" where
  "lengthOf v =
     (case v of
        JArr xs \<Rightarrow> Some (JNum (int (length xs)))
      | JStr s \<Rightarrow> Some (JNum (int (length s)))
      | _ \<Rightarrow> get v ''length'')"

text \<open>\<^verbatim>\<open>v > 0\<close>: \<^verbatim>\<open>undefined\<close> converts to \<^verbatim>\<open>NaN\<close>, \<^verbatim>\<open>null\<close> to 0, \<^verbatim>\<open>true\<close> to 1.\<close>

definition gt0 :: "host \<Rightarrow> jsval \<Rightarrow> bool" where
  "gt0 h v =
     (case v of
        JNum n \<Rightarrow> n > 0
      | JBool b \<Rightarrow> b
      | JNull \<Rightarrow> False
      | JUndefined \<Rightarrow> False
      | _ \<Rightarrow> gtZero h v)"

text \<open>
  The callback of \<^verbatim>\<open>servers.filter\<close>: whether the record is kept, and the counters after
  it. \<open>packages\<close> and \<open>remotes\<close> are truthy, so reading their \<^verbatim>\<open>length\<close> cannot throw.
\<close>

definition filterCallback :: "host \<Rightarrow> filterStats \<Rightarrow> jsval \<Rightarrow> (bool \<times> filterStats) option" where
  "filterCallback h stats item = do {
     server \<leftarrow> serverOf item;
     let packages = orElse (optGet server ''packages'') (JArr []);
         remotes = orElse (optGet server ''remotes'') (JArr []) in
     do {
       stats1 \<leftarrow> js_forEach (countType h) stats packages;
       inst \<leftarrow> hasInstallableMethod item;
       if inst then Some (True, stats1\<lparr>installable := installable stats1 + 1\<rparr>)
       else do {
         plen \<leftarrow> lengthOf packages;
         if plen = JNum 0 then do {
           rlen \<leftarrow> lengthOf remotes;
           if gt0 h rlen then Some (False, stats1\<lparr>onlyRemotes := onlyRemotes stats1 + 1\<rparr>)
           else Some (False, stats1\<lparr>noPackages := noPackages stats1 + 1\<rparr>)
         }
         else Some (False, stats1\<lparr>unsupportedRegistryType := unsupportedRegistryType stats1 + 1\<rparr>)
       }
     }
   }"

text \<open>\<^verbatim>\<open>xs.filter(f)\<close> with a callback that updates the counters it closes over.\<close>

fun filterWith :: "('s \<Rightarrow> 'a \<Rightarrow> (bool \<times> 's) option) \<Rightarrow> 's \<Rightarrow> 'a list \<Rightarrow> ('a list \<times> 's) option" where
  "filterWith f s [] = Some ([], s)"
| "filterWith f s (x # xs) =
     (case f s x of None \<Rightarrow> None
      | Some (keep, s1) \<Rightarrow>
          (case filterWith f s1 xs of None \<Rightarrow> None
           | Some (ys, s2) \<Rightarrow> Some (if keep then x # ys else ys, s2)))"

definition initialStats :: "nat \<Rightarrow> filterStats" where
  "initialStats n =
     \<lparr> total_count = n, installable = 0, noPackages = 0, onlyRemotes = 0,
       unsupportedRegistryType = 0, registryTypes = Map.empty \<rparr>"

definition filterInstallableServers :: "host \<Rightarrow> jsval list \<Rightarrow> (jsval list \<times> filterStats) option" where
  "filterInstallableServers h servers =
     filterWith (filterCallback h) (initialStats (length servers)) servers"

text \<open>
  Vocabulary for the statements about the filter: \<^verbatim>\<open>server.packages || []\<close> and
  \<^verbatim>\<open>server.remotes || []\<close> of a record, a package of a supported type, and the four
  classes of records.
\<close>

definition packagesOf :: "jsval \<Rightarrow> jsval" where
  "packagesOf item = orElse (optGet (orElse (optGet item ''server'') (JObj [])) ''packages'') (JArr [])"

definition remotesOf :: "jsval \<Rightarrow> jsval" where
  "remotesOf item = orElse (optGet (orElse (optGet item ''server'') (JObj [])) ''remotes'') (JArr [])"

definition supportedType :: "jsval \<Rightarrow> bool" where
  "supportedType pkg = (optGet pkg ''registryType'' \<in> {JStr ''npm'', JStr ''pypi'', JStr ''oci''})"

definition isInstallable :: "jsval \<Rightarrow> bool" where
  "isInstallable item = (hasInstallableMethod item = Some True)"

definition noPackagesAtAll :: "jsval \<Rightarrow> bool" where
  "noPackagesAtAll item = (lengthOf (packagesOf item) = Some (JNum 0))"

definition someRemotes :: "host \<Rightarrow> jsval \<Rightarrow> bool" where
  "someRemotes h item = (case lengthOf (remotesOf item) of Some l \<Rightarrow> gt0 h l | None \<Rightarrow> False)"

text \<open>One more in a counter when a condition holds.\<close>

definition bump :: "bool \<Rightarrow> nat" where
  "bump b = (if b then 1 else 0)"

text \<open>
  A record the filter can read without throwing: it is not \<^verbatim>\<open>null\<close>, and its packages
  are an array of values none of which is \<^verbatim>\<open>null\<close>.
\<close>

definition readable :: "jsval \<Rightarrow> bool" where
  "readable item = (nonNullish item \<and>
     (case packagesOf item of JArr pkgs \<Rightarrow> list_all nonNullish pkgs | _ \<Rightarrow> False))"


text \<open>Four records for evaluating the filter: one of each class.\<close>

definition remoteOnlyRecord :: jsval where
  "remoteOnlyRecord =
     JObj [(''server'', JObj [(''name'', JStr ''com.example/remote''),
        (''remotes'', JArr [JObj [(''type'', JStr ''sse''), (''url'', JStr ''https://example.com/sse'')]])])]"

definition mixedRecord :: jsval where
  "mixedRecord =
     JObj [(''server'', JObj [(''name'', JStr ''com.example/mixed''),
        (''packages'', JArr [JObj [(''registryType'', JStr ''mcpb''), (''identifier'', JStr ''mixed.mcpb'')],
                             JObj [(''registryType'', JStr ''npm''), (''identifier'', JStr ''mixed'')]])])]"

definition bareRecord :: jsval where
  "bareRecord = JObj [(''server'', JObj [(''name'', JStr ''com.example/bare'')])]"

definition nugetRecord :: jsval where
  "nugetRecord =
     JObj [(''server'', JObj [(''name'', JStr ''com.example/nuget''),
        (''packages'', JArr [JObj [(''registryType'', JStr ''nuget''), (''identifier'', JStr ''Example'')]])])]"

text \<open>The five counters of a result of the filter, without the histogram.\<close>

definition counters :: "filterStats \<Rightarrow> nat \<times> nat \<times> nat \<times> nat \<times> nat" where
  "counters s = (total_count s, installable s, noPackages s, onlyRemotes s, unsupportedRegistryType s)"

section \<open>The transform functions\<close>

text \<open>
  \<^verbatim>\<open>server.repository ? { url: ..., source: ..., subfolder: ... } : null\<close>, written out in
  both \<^verbatim>\<open>transformListItem\<close> and \<^verbatim>\<open>transformDetail\<close>. As in the deduplication, a property
  of a value known to be truthy is read with \<open>optGet\<close>.
\<close>

definition repositoryOf :: "jsval \<Rightarrow> jsval" where
  "repositoryOf server =
     (let repository = optGet server ''repository'' in
      if truthy repository
      then JObj [(''url'', orElse (optGet repository ''url'') (JStr '''')),
                 (''source'', orElse (optGet repository ''source'') (JStr ''github'')),
                 (''subfolder'', orElse (optGet repository ''subfolder'') JUndefined)]
      else JNull)"

definition transformListItem :: "jsval \<Rightarrow> jsval option" where
  "transformListItem item = do {
     server \<leftarrow> serverOf item;
     meta \<leftarrow> officialMeta item;
     iconUrl \<leftarrow> getIconUrl (optGet server ''icons'');
     Some (JObj
       [(''id'', orElse (optGet server ''name'') (JStr '''')),
        (''displayName'', orElse (orElse (optGet server ''title'') (optGet server ''name'')) (JStr '''')),
        (''description'', orElse (optGet server ''description'') (JStr '''')),
        (''iconUrl'', iconUrl),
        (''version'', orElse (optGet server ''version'') (JStr '''')),
        (''status'', orElse (optGet meta ''status'') (JStr ''active'')),
        (''publishedAt'', orElse (optGet meta ''publishedAt'') (JStr '''')),
        (''repository'', repositoryOf server)])
   }"

text \<open>The callbacks of the three \<^verbatim>\<open>map\<close> calls of \<^verbatim>\<open>transformPackage\<close>.\<close>

definition environmentVariable :: "jsval \<Rightarrow> jsval option" where
  "environmentVariable env = do {
     name \<leftarrow> get env ''name'';
     Some (JObj
       [(''name'', orElse name (JStr '''')),
        (''description'', orElse (optGet env ''description'') JUndefined),
        (''isRequired'', orElse (optGet env ''isRequired'') (JBool False)),
        (''isSecret'', orElse (optGet env ''isSecret'') (JBool False)),
        (''default'', orElse (optGet env ''default'') JUndefined),
        (''choices'', orElse (optGet env ''choices'') JUndefined)])
   }"

definition packageArgument :: "jsval \<Rightarrow> jsval option" where
  "packageArgument arg = do {
     name \<leftarrow> get arg ''name'';
     Some (JObj
       [(''name'', orElse name (JStr '''')),
        (''description'', orElse (optGet arg ''description'') JUndefined),
        (''type'', orElse (optGet arg ''type'') (JStr ''positional'')),
        (''isRequired'', orElse (optGet arg ''isRequired'') (JBool False)),
        (''default'', orElse (optGet arg ''default'') JUndefined)])
   }"

definition runtimeArgument :: "jsval \<Rightarrow> jsval option" where
  "runtimeArgument arg = do {
     name \<leftarrow> get arg ''name'';
     Some (JObj
       [(''name'', orElse name (JStr '''')),
        (''description'', orElse (optGet arg ''description'') JUndefined),
        (''type'', orElse (optGet arg ''type'') (JStr ''named'')),
        (''isRequired'', orElse (optGet arg ''isRequired'') (JBool False)),
        (''default'', orElse (optGet arg ''default'') JUndefined),
        (''valueHint'', orElse (optGet arg ''valueHint'') JUndefined)])
   }"

text \<open>\<^verbatim>\<open>.filter(x => x.name)\<close> on the objects a callback above has built.\<close>

definition named :: "jsval list \<Rightarrow> jsval list" where
  "named xs = filter (\<lambda>x. truthy (optGet x ''name'')) xs"

definition transformPackage :: "jsval \<Rightarrow> jsval option" where
  "transformPackage pkg = do {
     registryType \<leftarrow> get pkg ''registryType'';
     let transport = optGet pkg ''transport'' in
     do {
       environmentVariables \<leftarrow>
         js_map environmentVariable (orElse (optGet pkg ''environmentVariables'') (JArr []));
       packageArguments \<leftarrow>
         js_map packageArgument (orElse (optGet pkg ''packageArguments'') (JArr []));
       runtimeArguments \<leftarrow>
         js_map runtimeArgument (orElse (optGet pkg ''runtimeArguments'') (JArr []));
       Some (JObj
         [(''registryType'', orElse registryType (JStr ''npm'')),
          (''identifier'', orElse (optGet pkg ''identifier'') (JStr '''')),
          (''version'', orElse (optGet pkg ''version'') JUndefined),
          (''runtimeHint'', orElse (optGet pkg ''runtimeHint'') JUndefined),
          (''transport'',
             if truthy transport
             then JObj [(''type'', orElse (optGet transport ''type'') (JStr ''stdio''))]
             else JObj [(''type'', JStr ''stdio'')]),
          (''environmentVariables'', JArr (named environmentVariables)),
          (''packageArguments'', JArr (named packageArguments)),
          (''runtimeArguments'', JArr (named runtimeArguments))])
     }
   }"

text \<open>The callbacks of the \<^verbatim>\<open>map\<close> calls on the remotes and on their headers.\<close>

definition remoteHeader :: "jsval \<Rightarrow> jsval option" where
  "remoteHeader header = do {
     name \<leftarrow> get header ''name'';
     Some (JObj
       [(''name'', orElse name (JStr '''')),
        (''description'', orElse (optGet header ''description'') JUndefined),
        (''isRequired'', orElse (optGet header ''isRequired'') (JBool False)),
        (''isSecret'', orElse (optGet header ''isSecret'') (JBool False)),
        (''default'', orElse (optGet header ''default'') JUndefined)])
   }"

definition transformRemote :: "jsval \<Rightarrow> jsval option" where
  "transformRemote remote = do {
     ty \<leftarrow> get remote ''type'';
     headers \<leftarrow> js_map remoteHeader (orElse (optGet remote ''headers'') (JArr []));
     Some (JObj
       [(''type'', orElse ty (JStr ''streamable-http'')),
        (''url'', orElse (optGet remote ''url'') (JStr '''')),
        (''headers'', JArr (named headers))])
   }"

definition transformDetail :: "jsval \<Rightarrow> jsval option" where
  "transformDetail item = do {
     server \<leftarrow> serverOf item;
     meta \<leftarrow> officialMeta item;
     supported \<leftarrow> js_filter supportedPackage (orElse (optGet server ''packages'') (JArr []));
     packages \<leftarrow> those (map transformPackage supported);
     mapped \<leftarrow> js_map transformRemote (orElse (optGet server ''remotes'') (JArr []));
     let remotes = filter (\<lambda>r. truthy (optGet r ''url'')) mapped in
     do {
       iconUrl \<leftarrow> getIconUrl (optGet server ''icons'');
       Some (JObj
         [(''id'', orElse (optGet server ''name'') (JStr '''')),
          (''displayName'', orElse (orElse (optGet server ''title'') (optGet server ''name'')) (JStr '''')),
          (''description'', orElse (optGet server ''description'') (JStr '''')),
          (''version'', orElse (optGet server ''version'') (JStr '''')),
          (''status'', orElse (optGet meta ''status'') (JStr ''active'')),
          (''publishedAt'', orElse (optGet meta ''publishedAt'') (JStr '''')),
          (''updatedAt'', orElse (optGet meta ''updatedAt'') (JStr '''')),
          (''iconUrl'', iconUrl),
          (''websiteUrl'', orElse (optGet server ''websiteUrl'') JNull),
          (''repository'', repositoryOf server),
          (''packages'', JArr packages),
          (''remotes'', JArr remotes)])
     }
   }"

text \<open>
  Where an output holds \<^verbatim>\<open>undefined\<close>: the paths of property names that lead to a field
  whose value is \<^verbatim>\<open>undefined\<close> (positions in arrays are not part of a path). A value is
  JSON when it has no such path: what \<^verbatim>\<open>response.json()\<close> returns.
\<close>

fun undefinedPaths :: "jsval \<Rightarrow> string list list" where
  "undefinedPaths JUndefined = [[]]"
| "undefinedPaths (JArr xs) = concat (map undefinedPaths xs)"
| "undefinedPaths (JObj fs) = concat (map (\<lambda>p. map ((#) (fst p)) (undefinedPaths (snd p))) fs)"
| "undefinedPaths v = []"

definition isJson :: "jsval \<Rightarrow> bool" where
  "isJson v = (undefinedPaths v = [])"

text \<open>
  The fields the transform functions leave \<^verbatim>\<open>undefined\<close> when the registry has no value
  for them (\<^verbatim>\<open>x.f || undefined\<close> in the source), as paths from the root of each output.
\<close>

definition optionalOfListItem :: "string list list" where
  "optionalOfListItem = [[''repository'', ''subfolder'']]"

definition optionalOfPackage :: "string list list" where
  "optionalOfPackage =
     [[''version''], [''runtimeHint''],
      [''environmentVariables'', ''description''], [''environmentVariables'', ''default''],
      [''environmentVariables'', ''choices''],
      [''packageArguments'', ''description''], [''packageArguments'', ''default''],
      [''runtimeArguments'', ''description''], [''runtimeArguments'', ''default''],
      [''runtimeArguments'', ''valueHint'']]"

definition optionalOfDetail :: "string list list" where
  "optionalOfDetail =
     [[''repository'', ''subfolder'']] @ map ((#) ''packages'') optionalOfPackage
     @ [[''remotes'', ''headers'', ''description''], [''remotes'', ''headers'', ''default'']]"

text \<open>
  A record with a package of an unsupported type, a package of a supported type, a remote
  with a URL and a remote without one.
\<close>

definition hybridRecord :: jsval where
  "hybridRecord =
     JObj [(''server'', JObj [(''name'', JStr ''com.example/hybrid''),
        (''packages'', JArr [JObj [(''registryType'', JStr ''mcpb''), (''identifier'', JStr ''hybrid.mcpb'')],
                             JObj [(''registryType'', JStr ''pypi''), (''identifier'', JStr ''hybrid'')]]),
        (''remotes'', JArr [JObj [(''type'', JStr ''sse''), (''url'', JStr ''https://example.com/sse'')],
                            JObj [(''type'', JStr ''streamable-http'')]])])]"

section \<open>Sorting the index by stars\<close>

text \<open>
  \<^verbatim>\<open>serverStars\<close> is a Map from server names to star counts, which are numbers. The
  names are primitive values (strings, in the registry), so that a lookup by value is the
  lookup of the Map. The comparator of the sort reads it for both records:
  \<^verbatim>\<open>(a, b) => (serverStars.get(b.server?.name) || 0) - (serverStars.get(a.server?.name) || 0)\<close>.
  Reading \<^verbatim>\<open>a.server\<close> throws when \<open>a\<close> is \<^verbatim>\<open>null\<close>.
\<close>

definition compareStars :: "(jsval \<times> int) list \<Rightarrow> jsval \<Rightarrow> jsval \<Rightarrow> int option" where
  "compareStars serverStars a b = do {
     sa \<leftarrow> get a ''server'';
     let starsA = (case map_get serverStars (optGet sa ''name'') of Some n \<Rightarrow> n | None \<Rightarrow> 0) in
     do {
       sb \<leftarrow> get b ''server'';
       let starsB = (case map_get serverStars (optGet sb ''name'') of Some n \<Rightarrow> n | None \<Rightarrow> 0) in
       Some (starsB - starsA)
     }
   }"

text \<open>
  \<^verbatim>\<open>xs.sort(cmp)\<close>. The language requires the sort to be stable and leaves the algorithm to
  the engine; for a comparator that is a consistent order every stable sort returns the
  same array, the one insertion sort returns: an element goes before the first element of
  the sorted rest that the comparator does not put before it. With two or more elements
  every element is compared at least once, so a comparator that throws on an element
  ends the sort with its exception.
\<close>

fun insertBy :: "('a \<Rightarrow> 'a \<Rightarrow> int option) \<Rightarrow> 'a \<Rightarrow> 'a list \<Rightarrow> 'a list option" where
  "insertBy cmp x [] = Some [x]"
| "insertBy cmp x (y # ys) =
     (case cmp x y of None \<Rightarrow> None
      | Some c \<Rightarrow> if c \<le> 0 then Some (x # y # ys) else map_option ((#) y) (insertBy cmp x ys))"

fun js_sort :: "('a \<Rightarrow> 'a \<Rightarrow> int option) \<Rightarrow> 'a list \<Rightarrow> 'a list option" where
  "js_sort cmp [] = Some []"
| "js_sort cmp (x # xs) = (case js_sort cmp xs of None \<Rightarrow> None | Some ys \<Rightarrow> insertBy cmp x ys)"

text \<open>\<^verbatim>\<open>[...serverList].sort((a, b) => ...)\<close> in \<^verbatim>\<open>sync\<close>.\<close>

definition sortByStars :: "(jsval \<times> int) list \<Rightarrow> jsval list \<Rightarrow> jsval list option" where
  "sortByStars serverStars serverList = js_sort (compareStars serverStars) serverList"

text \<open>The star count of a record: \<^verbatim>\<open>serverStars.get(item.server?.name) || 0\<close>.\<close>

definition starCount :: "(jsval \<times> int) list \<Rightarrow> jsval \<Rightarrow> int" where
  "starCount serverStars item =
     (case map_get serverStars (optGet (optGet item ''server'') ''name'') of Some n \<Rightarrow> n | None \<Rightarrow> 0)"

text \<open>A record with a name and nothing else, and a star Map, for evaluating the sort.\<close>

definition namedRecord :: "string \<Rightarrow> jsval" where
  "namedRecord name = JObj [(''server'', JObj [(''name'', JStr name)])]"

definition exampleStars :: "(jsval \<times> int) list" where
  "exampleStars = [(JStr ''a'', 5), (JStr ''b'', 120), (JStr ''c'', 5), (JStr ''d'', 0)]"

section \<open>GitHub enrichment\<close>

definition GITHUB_API_BASE :: string where
  "GITHUB_API_BASE = ''https://api.github.com''"

text \<open>
  The two patterns of \<^verbatim>\<open>parseGitHubUrl\<close> are a literal followed by \<^verbatim>\<open>([^\/]+)\/([^\/\?#]+)\<close>.
  After the literal, the owner is the longest run of characters other than \<^verbatim>\<open>/\<close>: it must
  be non-empty and be followed by \<^verbatim>\<open>/\<close> (a shorter run is followed by a character of the
  run itself, so backtracking cannot help); the repository is then the longest run of
  characters other than \<^verbatim>\<open>/\<close>, \<^verbatim>\<open>?\<close> and \<^verbatim>\<open>#\<close>, and must be non-empty.
\<close>

definition ownerAndRepo :: "string \<Rightarrow> (string \<times> string) option" where
  "ownerAndRepo s =
     (let owner = takeWhile (\<lambda>c. c \<noteq> CHR ''/'') s;
          rest = dropWhile (\<lambda>c. c \<noteq> CHR ''/'') s
      in if owner = [] then None
         else (case rest of
                 [] \<Rightarrow> None
               | slash # t \<Rightarrow>
                   (let repo = takeWhile (\<lambda>c. c \<noteq> CHR ''/'' \<and> c \<noteq> CHR ''?'' \<and> c \<noteq> CHR ''#'') t
                    in if repo = [] then None else Some (owner, repo))))"

text \<open>
  \<^verbatim>\<open>url.match(pattern)\<close> without the \<^verbatim>\<open>g\<close> flag: the match at the leftmost position of the
  string where the pattern matches, with its two groups.
\<close>

fun regexMatch :: "string \<Rightarrow> string \<Rightarrow> (string \<times> string) option" where
  "regexMatch lit [] = None"
| "regexMatch lit (c # s) =
     (case (if take (length lit) (c # s) = lit then ownerAndRepo (drop (length lit) (c # s)) else None) of
        Some m \<Rightarrow> Some m
      | None \<Rightarrow> regexMatch lit s)"

text \<open>\<^verbatim>\<open>repo.replace(/\.git$/, '')\<close>\<close>

definition stripGit :: "string \<Rightarrow> string" where
  "stripGit repo =
     (if length repo \<ge> 4 \<and> drop (length repo - 4) repo = ''.git''
      then take (length repo - 4) repo else repo)"

record repoRef =
  owner :: string
  repo :: string

text \<open>
  \<^verbatim>\<open>parseGitHubUrl\<close>: \<open>Some None\<close> is the result \<^verbatim>\<open>null\<close>; \<open>None\<close> is the \<^verbatim>\<open>TypeError\<close> of
  calling \<^verbatim>\<open>match\<close> on a truthy value that is no string.
\<close>

definition parseGitHubUrl :: "jsval \<Rightarrow> repoRef option option" where
  "parseGitHubUrl url =
     (if \<not> truthy url then Some None
      else (case url of
              JStr u \<Rightarrow>
                (case regexMatch ''github.com/'' u of
                   Some (ow, rp) \<Rightarrow> Some (Some \<lparr>owner = ow, repo = stripGit rp\<rparr>)
                 | None \<Rightarrow>
                     (case regexMatch ''github.com:'' u of
                        Some (ow, rp) \<Rightarrow> Some (Some \<lparr>owner = ow, repo = stripGit rp\<rparr>)
                      | None \<Rightarrow> Some None))
            | _ \<Rightarrow> None))"

text \<open>
  What a request to the GitHub API can do: \<^verbatim>\<open>fetch\<close> rejects, or it resolves to a response
  with its \<^verbatim>\<open>ok\<close> flag and the outcome of \<^verbatim>\<open>response.json()\<close> (\<open>None\<close> when that rejects).
  The network is a parameter: the response to the \<open>n\<close>-th request of the run, by URL.
\<close>

datatype response = NetworkError | Response bool "jsval option"

type_synonym network = "nat \<Rightarrow> string \<Rightarrow> response"

text \<open>The star cache (a Map with string keys) and the log of the requests sent.\<close>

record enrichState =
  starCache :: "string \<Rightarrow> jsval option"
  requests :: "string list"

definition initialState :: enrichState where
  "initialState = \<lparr> starCache = Map.empty, requests = [] \<rparr>"

definition cacheKey :: "repoRef \<Rightarrow> string" where
  "cacheKey parsed = owner parsed @ ''/'' @ repo parsed"

definition apiUrl :: "repoRef \<Rightarrow> string" where
  "apiUrl parsed = GITHUB_API_BASE @ ''/repos/'' @ owner parsed @ ''/'' @ repo parsed"

text \<open>
  The \<^verbatim>\<open>try\<close> block once the response is there: the star count it computes, or \<open>None\<close>
  when an exception reaches the \<^verbatim>\<open>catch\<close>.
\<close>

definition tryBlock :: "response \<Rightarrow> jsval option" where
  "tryBlock r =
     (case r of
        NetworkError \<Rightarrow> None
      | Response ok body \<Rightarrow>
          if \<not> ok then Some (JNum 0)
          else do {
            data \<leftarrow> body;
            count \<leftarrow> get data ''stargazers_count'';
            Some (orElse count (JNum 0))
          })"

definition getGitHubStars :: "network \<Rightarrow> enrichState \<Rightarrow> jsval \<Rightarrow> (jsval \<times> enrichState) option" where
  "getGitHubStars net st repoUrl = do {
     parsed \<leftarrow> parseGitHubUrl repoUrl;
     (case parsed of
        None \<Rightarrow> Some (JNum 0, st)
      | Some p \<Rightarrow>
          (case starCache st (cacheKey p) of
             Some cached \<Rightarrow> Some (cached, st)
           | None \<Rightarrow>
               let stars = (case tryBlock (net (length (requests st)) (apiUrl p)) of
                              Some s \<Rightarrow> s | None \<Rightarrow> JNum 0)
               in Some (stars, st\<lparr>starCache := (starCache st)(cacheKey p \<mapsto> stars),
                                  requests := requests st @ [apiUrl p]\<rparr>)))
   }"

text \<open>
  One run: the states reached from a state by any number of calls of \<^verbatim>\<open>getGitHubStars\<close>,
  each on the state the call before it left.
\<close>

inductive calls :: "network \<Rightarrow> enrichState \<Rightarrow> enrichState \<Rightarrow> bool" for net :: network where
  calls_none: "calls net st st"
| calls_more: "calls net st st1 \<Longrightarrow> getGitHubStars net st1 url = Some (v, st2) \<Longrightarrow> calls net st st2"

text \<open>A network on which one repository has 42 stars and every other request fails.\<close>

definition exampleNetwork :: network where
  "exampleNetwork n url =
     (if url = ''https://api.github.com/repos/octocat/hello''
      then Response True (Some (JObj [(''stargazers_count'', JNum 42)]))
      else NetworkError)"

text \<open>
  For the statements about the log: the request URL of a cache key, and the state whose
  log has no request twice and only requests for keys the cache holds.
\<close>

definition requestFor :: "string \<Rightarrow> string" where
  "requestFor k = GITHUB_API_BASE @ ''/repos/'' @ k"

definition logged :: "enrichState \<Rightarrow> bool" where
  "logged st = (distinct (requests st) \<and> set (requests st) \<subseteq> requestFor ` dom (starCache st))"

text \<open>
  A record \<^verbatim>\<open>transformDetail\<close> can read without throwing. A list of descriptors is absent
  (\<^verbatim>\<open>x || []\<close> replaces it) or an array of values none of which is \<^verbatim>\<open>null\<close>; a package has
  such lists of environment variables and arguments, a remote such a list of headers; the
  icons are anything but an array that holds \<^verbatim>\<open>null\<close>. The record itself is not \<^verbatim>\<open>null\<close>,
  its packages are an array of values none of which is \<^verbatim>\<open>null\<close>, those of a supported type
  being packages as above, and its remotes are an array of remotes as above.
\<close>

definition descriptors :: "jsval \<Rightarrow> bool" where
  "descriptors v = (case orElse v (JArr []) of JArr xs \<Rightarrow> list_all nonNullish xs | _ \<Rightarrow> False)"

definition readablePackage :: "jsval \<Rightarrow> bool" where
  "readablePackage pkg =
     (nonNullish pkg \<and> descriptors (optGet pkg ''environmentVariables'')
      \<and> descriptors (optGet pkg ''packageArguments'')
      \<and> descriptors (optGet pkg ''runtimeArguments''))"

definition readableRemote :: "jsval \<Rightarrow> bool" where
  "readableRemote remote = (nonNullish remote \<and> descriptors (optGet remote ''headers''))"

definition readableIcons :: "jsval \<Rightarrow> bool" where
  "readableIcons icons = (case icons of JArr xs \<Rightarrow> list_all nonNullish xs | _ \<Rightarrow> True)"

definition transformable :: "jsval \<Rightarrow> bool" where
  "transformable item =
     (nonNullish item
      \<and> (case packagesOf item of
            JArr pkgs \<Rightarrow> list_all nonNullish pkgs \<and> list_all readablePackage (filter supportedType pkgs)
          | _ \<Rightarrow> False)
      \<and> (case remotesOf item of JArr rs \<Rightarrow> list_all readableRemote rs | _ \<Rightarrow> False)
      \<and> readableIcons (optGet (orElse (optGet item ''server'') (JObj [])) ''icons''))"

section \<open>Properties\<close>

lemma get_nonNullish: "nonNullish v \<Longrightarrow> get v f = Some (optGet v f)"
  by (cases v) (auto simp: nonNullish_def optGet_def split: option.splits)

lemma truthy_nonNullish: "truthy v \<Longrightarrow> nonNullish v"
  by (cases v) (auto simp: nonNullish_def)

subsection \<open>The safe file name\<close>

lemma toSafeFileName_append: "toSafeFileName (xs @ ys) = toSafeFileName xs @ toSafeFileName ys"
  by (simp add: toSafeFileName_def)

lemma toSafeFileName_no_slash: "CHR ''/'' \<notin> set name \<Longrightarrow> toSafeFileName name = name"
  by (induction name) (auto simp: toSafeFileName_def)

lemma toSafeFileName_slash_free: "CHR ''/'' \<notin> set (toSafeFileName name)"
  by (induction name) (auto simp: toSafeFileName_def)

lemma toSafeFileName_inj_same_flags:
  "map (\<lambda>c. c = CHR ''/'') a = map (\<lambda>c. c = CHR ''/'') b \<Longrightarrow>
     toSafeFileName a = toSafeFileName b \<Longrightarrow> a = b"
proof (induction a arbitrary: b)
  case Nil
  then show ?case by simp
next
  case (Cons x xs)
  then obtain y ys where b: "b = y # ys" by (cases b) auto
  with Cons.prems have s: "(x = CHR ''/'') = (y = CHR ''/'')"
    "map (\<lambda>c. c = CHR ''/'') xs = map (\<lambda>c. c = CHR ''/'') ys"
    by auto
  from Cons.prems b s have "x = y \<and> toSafeFileName xs = toSafeFileName ys"
    by (auto simp: toSafeFileName_def split: if_splits)
  with Cons.IH s show ?case by (simp add: b)
qed

lemma set_slashesFrom:
  "set (slashesFrom i name) = {i + k | k. k < length name \<and> name ! k = CHR ''/''}"
proof (induction name arbitrary: i)
  case Nil
  then show ?case by simp
next
  case (Cons c cs)
  have "{i + k | k. k < length (c # cs) \<and> (c # cs) ! k = CHR ''/''}
      = (if c = CHR ''/'' then {i} else {}) \<union> {Suc i + k | k. k < length cs \<and> cs ! k = CHR ''/''}"
  proof (intro set_eqI iffI)
    fix x assume "x \<in> {i + k | k. k < length (c # cs) \<and> (c # cs) ! k = CHR ''/''}"
    then obtain k where k: "x = i + k" "k < length (c # cs)" "(c # cs) ! k = CHR ''/''" by blast
    show "x \<in> (if c = CHR ''/'' then {i} else {}) \<union> {Suc i + k | k. k < length cs \<and> cs ! k = CHR ''/''}"
    proof (cases k)
      case 0
      with k show ?thesis by simp
    next
      case (Suc j)
      with k have "x = Suc i + j" "j < length cs" "cs ! j = CHR ''/''" by simp_all
      then show ?thesis by blast
    qed
  next
    fix x assume "x \<in> (if c = CHR ''/'' then {i} else {}) \<union> {Suc i + k | k. k < length cs \<and> cs ! k = CHR ''/''}"
    then consider "c = CHR ''/''" "x = i"
      | k where "x = Suc i + k" "k < length cs" "cs ! k = CHR ''/''"
      by (auto split: if_splits)
    then show "x \<in> {i + k | k. k < length (c # cs) \<and> (c # cs) ! k = CHR ''/''}"
    proof cases
      case 1
      then have "x = i + 0 \<and> 0 < length (c # cs) \<and> (c # cs) ! 0 = CHR ''/''" by simp
      then show ?thesis by blast
    next
      case 2
      then have "x = i + Suc k \<and> Suc k < length (c # cs) \<and> (c # cs) ! Suc k = CHR ''/''" by simp
      then show ?thesis by blast
    qed
  qed
  with Cons.IH [of "Suc i"] show ?case by auto
qed

lemma slashesFrom_ge: "j \<in> set (slashesFrom i name) \<Longrightarrow> i \<le> j"
  by (auto simp: set_slashesFrom)

lemma slashesFrom_sorted: "sorted (slashesFrom i name) \<and> distinct (slashesFrom i name)"
proof (induction name arbitrary: i)
  case Nil
  then show ?case by simp
next
  case (Cons c cs)
  have "\<forall>j\<in>set (slashesFrom (Suc i) cs). i < j"
    using slashesFrom_ge [of _ "Suc i" cs] by (auto simp: Suc_le_eq)
  with Cons [of "Suc i"] show ?case by (auto simp: less_imp_le)
qed

lemma slashesFrom_flags:
  "length a = length b \<Longrightarrow> slashesFrom i a = slashesFrom i b \<Longrightarrow>
     map (\<lambda>c. c = CHR ''/'') a = map (\<lambda>c. c = CHR ''/'') b"
proof (induction a b arbitrary: i rule: list_induct2)
  case Nil
  then show ?case by simp
next
  case (Cons x xs y ys)
  have nx: "i \<notin> set (slashesFrom (Suc i) xs)" and ny: "i \<notin> set (slashesFrom (Suc i) ys)"
    using slashesFrom_ge [of i "Suc i"] by auto
  show ?case
  proof (cases "x = CHR ''/''"; cases "y = CHR ''/''")
    assume "x = CHR ''/''" "y = CHR ''/''"
    with Cons show ?thesis by simp
  next
    assume "x = CHR ''/''" "y \<noteq> CHR ''/''"
    with Cons.prems have "i # slashesFrom (Suc i) xs = slashesFrom (Suc i) ys" by simp
    then have "i \<in> set (slashesFrom (Suc i) ys)" by (metis list.set_intros(1))
    with ny show ?thesis by simp
  next
    assume "x \<noteq> CHR ''/''" "y = CHR ''/''"
    with Cons.prems have "slashesFrom (Suc i) xs = i # slashesFrom (Suc i) ys" by simp
    then have "i \<in> set (slashesFrom (Suc i) xs)" by (metis list.set_intros(1))
    with nx show ?thesis by simp
  next
    assume "x \<noteq> CHR ''/''" "y \<noteq> CHR ''/''"
    with Cons show ?thesis by simp
  qed
qed

lemma length_toSafeFileName:
  "length (toSafeFileName name) = length name + length (slashesFrom i name)"
  by (induction name arbitrary: i) (auto simp: toSafeFileName_def)

lemma toSafeFileName_inj_same_slashes:
  assumes "sameSlashes a b" "toSafeFileName a = toSafeFileName b"
  shows "a = b"
proof -
  from assms(1) have p: "slashesFrom 0 a = slashesFrom 0 b"
    by (simp add: sameSlashes_def slashPositions_def)
  with assms(2) have l: "length a = length b"
    using length_toSafeFileName [of a 0] length_toSafeFileName [of b 0] by simp
  from slashesFrom_flags [OF l p] assms(2) show ?thesis
    by (rule toSafeFileName_inj_same_flags)
qed

lemma sameSlashes_iff:
  "sameSlashes a b \<longleftrightarrow>
     (\<forall>i. (i < length a \<and> a ! i = CHR ''/'') = (i < length b \<and> b ! i = CHR ''/''))"
proof
  assume "sameSlashes a b"
  then have "set (slashesFrom 0 a) = set (slashesFrom 0 b)"
    by (simp add: sameSlashes_def slashPositions_def)
  then show "\<forall>i. (i < length a \<and> a ! i = CHR ''/'') = (i < length b \<and> b ! i = CHR ''/'')"
    by (simp add: set_slashesFrom set_eq_iff)
next
  assume "\<forall>i. (i < length a \<and> a ! i = CHR ''/'') = (i < length b \<and> b ! i = CHR ''/'')"
  then have "set (slashesFrom 0 a) = set (slashesFrom 0 b)"
    by (simp add: set_slashesFrom set_eq_iff)
  with slashesFrom_sorted [of 0 a] slashesFrom_sorted [of 0 b]
  have "slashesFrom 0 a = slashesFrom 0 b"
    by (blast intro: sorted_distinct_set_unique)
  then show "sameSlashes a b" by (simp add: sameSlashes_def slashPositions_def)
qed

lemma toSafeFileName_inj_no_underscore:
  "CHR ''_'' \<notin> set a \<Longrightarrow> CHR ''_'' \<notin> set b \<Longrightarrow> toSafeFileName a = toSafeFileName b \<Longrightarrow> a = b"
proof (induction a arbitrary: b)
  case Nil
  then show ?case by (cases b) (auto simp: toSafeFileName_def split: if_splits)
next
  case (Cons x xs)
  show ?case
  proof (cases b)
    case Nil
    with Cons.prems show ?thesis by (auto simp: toSafeFileName_def split: if_splits)
  next
    case (Cons y ys)
    with Cons.prems have "x = y \<and> toSafeFileName xs = toSafeFileName ys"
      by (auto simp: toSafeFileName_def split: if_splits)
    with Cons.IH [of ys] Cons.prems Cons show ?thesis by simp
  qed
qed

text \<open>
  C9. The safe file name replaces every \<^verbatim>\<open>/\<close> of a server name by \<^verbatim>\<open>__\<close> and changes
  nothing else: \<^verbatim>\<open>io.github.user/weather\<close> becomes \<^verbatim>\<open>io.github.user__weather\<close>, a slash
  between two parts becomes \<^verbatim>\<open>__\<close> between their images, a name with no slash is
  unchanged, and no slash is left. It is a function of the name alone (the same name
  always gives the same stem). Two distinct names that differ only outside \<^verbatim>\<open>/\<close>, that is,
  that have a slash at exactly the same indices, whatever their lengths, never get the
  same stem; nor do two distinct names without an underscore, wherever their slashes are.
\<close>

theorem toSafeFileName_spec:
  "toSafeFileName ''io.github.user/weather'' = ''io.github.user__weather''
   \<and> toSafeFileName (xs @ ''/'' @ ys) = toSafeFileName xs @ ''__'' @ toSafeFileName ys
   \<and> (CHR ''/'' \<notin> set name \<longrightarrow> toSafeFileName name = name)
   \<and> CHR ''/'' \<notin> set (toSafeFileName name)
   \<and> (sameSlashes a b \<longleftrightarrow>
        (\<forall>i. (i < length a \<and> a ! i = CHR ''/'') = (i < length b \<and> b ! i = CHR ''/'')))
   \<and> (sameSlashes a b \<and> a \<noteq> b \<longrightarrow> toSafeFileName a \<noteq> toSafeFileName b)
   \<and> (CHR ''_'' \<notin> set a \<and> CHR ''_'' \<notin> set b \<and> a \<noteq> b \<longrightarrow> toSafeFileName a \<noteq> toSafeFileName b)"
proof -
  have 1: "toSafeFileName ''io.github.user/weather'' = ''io.github.user__weather''"
    by (simp add: toSafeFileName_def)
  have 2: "toSafeFileName (xs @ ''/'' @ ys) = toSafeFileName xs @ ''__'' @ toSafeFileName ys"
    by (simp add: toSafeFileName_def)
  have 3: "CHR ''/'' \<notin> set name \<longrightarrow> toSafeFileName name = name"
    using toSafeFileName_no_slash [of name] by blast
  have 6: "sameSlashes a b \<and> a \<noteq> b \<longrightarrow> toSafeFileName a \<noteq> toSafeFileName b"
    using toSafeFileName_inj_same_slashes [of a b] by blast
  have 7: "CHR ''_'' \<notin> set a \<and> CHR ''_'' \<notin> set b \<and> a \<noteq> b \<longrightarrow> toSafeFileName a \<noteq> toSafeFileName b"
    using toSafeFileName_inj_no_underscore [of a b] by blast
  show ?thesis
    by (intro conjI 1 2 3 toSafeFileName_slash_free sameSlashes_iff 6 7)
qed

theorem toSafeFileName_spec_witness:
  "sameSlashes ''io.github.user/weather'' ''io.github.user/weather2''
   \<and> ''io.github.user/weather'' \<noteq> ''io.github.user/weather2''
   \<and> toSafeFileName ''io.github.user/weather'' \<noteq> toSafeFileName ''io.github.user/weather2''
   \<and> CHR ''_'' \<notin> set ''smithery/hello-world'' \<and> CHR ''_'' \<notin> set ''smithery-hello/world''
   \<and> ''smithery/hello-world'' \<noteq> ''smithery-hello/world''
   \<and> toSafeFileName ''smithery/hello-world'' \<noteq> toSafeFileName ''smithery-hello/world''
   \<and> CHR ''/'' \<notin> set ''weather''
   \<and> toSafeFileName ''weather'' = ''weather''
   \<and> toSafeFileName (''smithery'' @ ''/'' @ ''hello-world'') = ''smithery__hello-world''"
proof -
  have s: "sameSlashes ''io.github.user/weather'' ''io.github.user/weather2''"
    by (simp add: sameSlashes_def slashPositions_def)
  have d: "''io.github.user/weather'' \<noteq> ''io.github.user/weather2''" by simp
  have u: "CHR ''_'' \<notin> set ''smithery/hello-world''" "CHR ''_'' \<notin> set ''smithery-hello/world''"
    by simp_all
  have e: "''smithery/hello-world'' \<noteq> ''smithery-hello/world''" by simp
  have n: "CHR ''/'' \<notin> set ''weather''" by simp
  from toSafeFileName_spec [where a = "''io.github.user/weather''" and b = "''io.github.user/weather2''"] s d
  have 1: "toSafeFileName ''io.github.user/weather'' \<noteq> toSafeFileName ''io.github.user/weather2''"
    by blast
  from toSafeFileName_spec [where a = "''smithery/hello-world''" and b = "''smithery-hello/world''"] u e
  have 2: "toSafeFileName ''smithery/hello-world'' \<noteq> toSafeFileName ''smithery-hello/world''"
    by blast
  from toSafeFileName_spec [where name = "''weather''"] n
  have 3: "toSafeFileName ''weather'' = ''weather''" by blast
  from toSafeFileName_spec [where xs = "''smithery''" and ys = "''hello-world''"] 
  have 4: "toSafeFileName (''smithery'' @ ''/'' @ ''hello-world'') = ''smithery__hello-world''"
    by (simp add: toSafeFileName_def)
  from s d 1 u e 2 n 3 4 show ?thesis by (intro conjI)
qed

subsection \<open>Icon selection\<close>

lemma js_find_find:
  "list_all nonNullish xs \<Longrightarrow>
   js_find (\<lambda>icon. do { t \<leftarrow> get icon f; Some (P t) }) xs =
     Some (case List.find (\<lambda>i. P (optGet i f)) xs of Some c \<Rightarrow> c | None \<Rightarrow> JUndefined)"
  by (induction xs) (auto simp: get_nonNullish)

lemma optGet_undefined [simp]: "optGet JUndefined f = JUndefined"
  by (simp add: optGet_def)

lemma iconSrc_undefined [simp]: "iconSrc JUndefined = JUndefined"
  by (simp add: iconSrc_def)

lemma find_nonNullish: "list_all nonNullish xs \<Longrightarrow> List.find p xs = Some c \<Longrightarrow> nonNullish c"
  by (induction xs) (auto split: if_splits)

text \<open>
  C4, as the code has it. For an array of candidates none of which is \<^verbatim>\<open>null\<close>,
  \<^verbatim>\<open>getIconUrl\<close> looks at one candidate per tier, the first one the tier's test accepts:
  it returns the source of the first candidate whose theme is \<^verbatim>\<open>light\<close> when that
  candidate has a source; otherwise the source of the first candidate with no theme when
  that one has a source; otherwise the source of the first candidate that has a source;
  otherwise \<^verbatim>\<open>null\<close>. An empty array and a value that is no array give \<^verbatim>\<open>null\<close>. The three
  examples of the specification give \<^verbatim>\<open>b\<close>, \<^verbatim>\<open>c\<close> and \<^verbatim>\<open>null\<close>.
\<close>

theorem getIconUrl_first_match:
  "(list_all nonNullish xs \<longrightarrow>
      getIconUrl (JArr xs) = Some
       (if truthy (firstSrc (\<lambda>i. iconTheme i = JStr ''light'') xs)
        then firstSrc (\<lambda>i. iconTheme i = JStr ''light'') xs
        else if truthy (firstSrc (\<lambda>i. \<not> truthy (iconTheme i)) xs)
        then firstSrc (\<lambda>i. \<not> truthy (iconTheme i)) xs
        else orElse (firstSrc (\<lambda>i. truthy (iconSrc i)) xs) JNull))
   \<and> getIconUrl (JArr []) = Some JNull
   \<and> getIconUrl JUndefined = Some JNull \<and> getIconUrl JNull = Some JNull
   \<and> getIconUrl (JBool t) = Some JNull \<and> getIconUrl (JNum k) = Some JNull
   \<and> getIconUrl (JStr s) = Some JNull \<and> getIconUrl (JObj fs) = Some JNull
   \<and> getIconUrl (JArr [JObj [(''theme'', JStr ''dark''), (''src'', JStr ''a'')],
                       JObj [(''theme'', JStr ''light''), (''src'', JStr ''b'')]]) = Some (JStr ''b'')
   \<and> getIconUrl (JArr [JObj [(''src'', JStr ''c'')]]) = Some (JStr ''c'')"
proof -
  have main: "getIconUrl (JArr xs) = Some
       (if truthy (firstSrc (\<lambda>i. iconTheme i = JStr ''light'') xs)
        then firstSrc (\<lambda>i. iconTheme i = JStr ''light'') xs
        else if truthy (firstSrc (\<lambda>i. \<not> truthy (iconTheme i)) xs)
        then firstSrc (\<lambda>i. \<not> truthy (iconTheme i)) xs
        else orElse (firstSrc (\<lambda>i. truthy (iconSrc i)) xs) JNull)"
    if nn: "list_all nonNullish xs"
  proof (cases "xs = []")
    case True
    then show ?thesis by (simp add: getIconUrl_def firstSrc_def orElse_def)
  next
    case False
    note f = js_find_find [OF nn]
    have g: "\<And>p c. List.find p xs = Some c \<Longrightarrow> get c ''src'' = Some (iconSrc c)"
      using find_nonNullish [OF nn] by (simp add: get_nonNullish iconSrc_def)
    show ?thesis using False
      by (auto simp: getIconUrl_def f firstSrc_def iconTheme_def iconSrc_def [symmetric] g
          split: option.splits)
  qed
  have ex1: "getIconUrl (JArr [JObj [(''theme'', JStr ''dark''), (''src'', JStr ''a'')],
                       JObj [(''theme'', JStr ''light''), (''src'', JStr ''b'')]]) = Some (JStr ''b'')"
    by (simp add: getIconUrl_def optGet_def)
  have ex2: "getIconUrl (JArr [JObj [(''src'', JStr ''c'')]]) = Some (JStr ''c'')"
    by (simp add: getIconUrl_def optGet_def)
  show ?thesis using main ex1 ex2 by (simp add: getIconUrl_def)
qed

theorem getIconUrl_first_match_witness:
  "list_all nonNullish [JObj [(''theme'', JStr ''light'')], JObj [(''theme'', JStr ''dark''), (''src'', JStr ''a'')]]
   \<and> getIconUrl (JArr [JObj [(''theme'', JStr ''light'')], JObj [(''theme'', JStr ''dark''), (''src'', JStr ''a'')]])
       = Some (JStr ''a'')"
proof -
  let ?xs = "[JObj [(''theme'', JStr ''light'')], JObj [(''theme'', JStr ''dark''), (''src'', JStr ''a'')]]"
  have nn: "list_all nonNullish ?xs" by (simp add: nonNullish_def)
  from getIconUrl_first_match [of ?xs] nn show ?thesis
    by (simp add: firstSrc_def iconTheme_def iconSrc_def optGet_def orElse_def)
qed

text \<open>
  C4 as the specification words it fails: a candidate with the theme \<^verbatim>\<open>light\<close> and the
  source \<^verbatim>\<open>b\<close> exists, and the themeless candidate's \<^verbatim>\<open>c\<close> is returned, because the first
  \<^verbatim>\<open>light\<close> candidate has no source.
\<close>

theorem getIconUrl_light_counterexample:
  "getIconUrl (JArr [JObj [(''theme'', JStr ''light'')],
                     JObj [(''theme'', JStr ''light''), (''src'', JStr ''b'')],
                     JObj [(''src'', JStr ''c'')]]) = Some (JStr ''c'')"
  by (simp add: getIconUrl_def optGet_def orElse_def)

subsection \<open>Deduplication\<close>

lemma forEach_append:
  "forEach f s (xs @ ys) = (case forEach f s xs of None \<Rightarrow> None | Some s' \<Rightarrow> forEach f s' ys)"
  by (induction xs arbitrary: s) (auto split: option.splits)

lemma sameValueZero_JStr [simp]: "sameValueZero k (JStr n) = (k = JStr n)"
  by (cases k) (auto simp: sameValueZero_def)

lemma sameValueZero_eq: "sameValueZero k' k \<Longrightarrow> k' = k"
  by (cases k') (auto simp: sameValueZero_def)

lemma entries_map_set_other: "k \<noteq> JStr n \<Longrightarrow> entries n (map_set m k v) = entries n m"
  by (induction m) (auto simp: entries_def dest: sameValueZero_eq)

lemma entries_empty:
  "entries n m = [] \<Longrightarrow> map_get m (JStr n) = None \<and> entries n (map_set m (JStr n) v) = [(JStr n, v)]"
  by (induction m) (auto simp: entries_def split: if_splits)

lemma entries_single:
  "entries n m = [(JStr n, a)] \<Longrightarrow>
     map_get m (JStr n) = Some a \<and> entries n (map_set m (JStr n) v) = [(JStr n, v)]"
proof (induction m)
  case Nil
  then show ?case by (simp add: entries_def)
next
  case (Cons p m)
  show ?case
  proof (cases "fst p = JStr n")
    case True
    with Cons.prems have "p = (JStr n, a)" "entries n m = []"
      by (auto simp: entries_def)
    then show ?thesis by (simp add: entries_def)
  next
    case False
    with Cons.prems have "entries n m = [(JStr n, a)]" by (simp add: entries_def)
    from Cons.IH [OF this] False show ?thesis
      by (cases p) (auto simp: entries_def)
  qed
qed

lemma keyed_map_set: "keyed m \<Longrightarrow> serverName v = k \<Longrightarrow> keyed (map_set m k v)"
  by (induction m) (auto simp: keyed_def dest!: sameValueZero_eq)

lemma dedupStep_cases:
  assumes "dedupStep h m item = Some m'"
  shows "nonNullish item \<and> (m' = m \<or> m' = map_set m (serverName item) item \<and> truthy (serverName item))"
proof -
  from assms have nn: "nonNullish item"
    by (cases item) (auto simp: dedupStep_def serverOf_def nonNullish_def)
  then have s: "serverOf item = Some (orElse (optGet item ''server'') (JObj []))"
    and m: "officialMeta item = Some (metaOf item)"
    by (simp_all add: serverOf_def officialMeta_def metaOf_def get_nonNullish)
  from assms show ?thesis
    by (auto simp: dedupStep_def s m nn serverName_def Let_def split: if_splits)
qed

lemma dedupStep_other:
  assumes "dedupStep h m item = Some m'" "serverName item \<noteq> JStr n"
  shows "entries n m' = entries n m"
  using dedupStep_cases [OF assms(1)] assms(2) by (auto simp: entries_map_set_other)

lemma dedupStep_keyed:
  assumes "dedupStep h m item = Some m'" "keyed m"
  shows "keyed m'"
  using dedupStep_cases [OF assms(1)] assms(2) by (auto simp: keyed_map_set)

lemma forEach_other:
  "forEach (dedupStep h) m xs = Some m' \<Longrightarrow> \<forall>x\<in>set xs. serverName x \<noteq> JStr n \<Longrightarrow>
   entries n m' = entries n m"
proof (induction xs arbitrary: m)
  case Nil
  then show ?case by simp
next
  case (Cons x xs)
  then show ?case by (auto split: option.splits dest: dedupStep_other)
qed

lemma forEach_keyed:
  "forEach (dedupStep h) m xs = Some m' \<Longrightarrow> keyed m \<Longrightarrow> keyed m'"
  by (induction xs arbitrary: m) (auto split: option.splits dest: dedupStep_keyed)

lemma named_truthy: "serverName item = JStr n \<Longrightarrow> truthy item"
  by (cases item) (auto simp: serverName_def optGet_def orElse_def)

lemma dedupStep_first:
  assumes "dedupStep h m a = Some m'" "serverName a = JStr n" "n \<noteq> []" "entries n m = []"
  shows "entries n m' = [(JStr n, a)]"
proof -
  have nn: "nonNullish a" using dedupStep_cases [OF assms(1)] by simp
  then have s: "serverOf a = Some (orElse (optGet a ''server'') (JObj []))"
    and m: "officialMeta a = Some (metaOf a)"
    by (simp_all add: serverOf_def officialMeta_def metaOf_def get_nonNullish)
  have n: "optGet (orElse (optGet a ''server'') (JObj [])) ''name'' = JStr n"
    using assms(2) by (simp add: serverName_def)
  from assms(1) entries_empty [OF assms(4), of a] assms(3) show ?thesis
    by (auto simp: dedupStep_def s m n)
qed

lemma dedupStep_total: "nonNullish item \<Longrightarrow> \<exists>m'. dedupStep h m item = Some m'"
  by (simp add: dedupStep_def serverOf_def officialMeta_def get_nonNullish Let_def)

lemma forEach_dedupStep_total:
  "list_all nonNullish xs \<Longrightarrow> \<exists>m'. forEach (dedupStep h) m xs = Some m'"
proof (induction xs arbitrary: m)
  case Nil
  then show ?case by simp
next
  case (Cons x xs)
  then obtain m1 where "dedupStep h m x = Some m1" using dedupStep_total [of x h m] by auto
  with Cons show ?case by simp
qed

lemma deduplicateServers_total:
  "list_all nonNullish xs \<Longrightarrow> \<exists>out. deduplicateServers h xs = Some out"
  using forEach_dedupStep_total [of xs h "[]"] by (auto simp: deduplicateServers_def)

lemma dedupStep_second:
  assumes "dedupStep h m b = Some m'" "serverName b = JStr n" "n \<noteq> []"
    "entries n m = [(JStr n, a)]" "serverName a = JStr n"
  shows "entries n m' =
     [(JStr n, if isLatest b \<or> dateGt (publishedTime h b) (publishedTime h a) then b else a)]"
proof -
  have nn: "nonNullish b" using dedupStep_cases [OF assms(1)] by simp
  then have s: "serverOf b = Some (orElse (optGet b ''server'') (JObj []))"
    and m: "officialMeta b = Some (metaOf b)"
    by (simp_all add: serverOf_def officialMeta_def metaOf_def get_nonNullish)
  have n: "optGet (orElse (optGet b ''server'') (JObj [])) ''name'' = JStr n"
    using assms(2) by (simp add: serverName_def)
  have t: "truthy a" using assms(5) by (rule named_truthy)
  from assms(1) entries_single [OF assms(4), of b] assms(3) assms(4) t show ?thesis
    by (auto simp: dedupStep_def s m n Let_def publishedTime_def isLatest_def metaOf_def [symmetric]
        split: if_splits)
qed

lemma deduplicateServers_pair:
  assumes out: "deduplicateServers h (pre @ [a] @ mid @ [b] @ post) = Some out"
    and a: "serverName a = JStr n" and b: "serverName b = JStr n" and n: "n \<noteq> []"
    and others: "\<forall>x\<in>set (pre @ mid @ post). serverName x \<noteq> JStr n"
  shows "filter (\<lambda>i. serverName i = JStr n) out =
           [if isLatest b \<or> dateGt (publishedTime h b) (publishedTime h a) then b else a]"
proof -
  from out obtain mf where mf: "forEach (dedupStep h) [] (pre @ [a] @ mid @ [b] @ post) = Some mf"
    and o: "out = map snd mf"
    by (auto simp: deduplicateServers_def)
  from mf obtain m1 m2 m3 m4 where
      1: "forEach (dedupStep h) [] pre = Some m1"
  and 2: "dedupStep h m1 a = Some m2"
  and 3: "forEach (dedupStep h) m2 mid = Some m3"
  and 4: "dedupStep h m3 b = Some m4"
  and 5: "forEach (dedupStep h) m4 post = Some mf"
    by (auto simp: forEach_append split: option.splits)
  have e1: "entries n m1 = []"
    using forEach_other [OF 1, of n] others by (simp add: entries_def)
  have e2: "entries n m2 = [(JStr n, a)]"
    by (rule dedupStep_first [OF 2 a n e1])
  have e3: "entries n m3 = [(JStr n, a)]"
    using forEach_other [OF 3, of n] others e2 by simp
  let ?w = "if isLatest b \<or> dateGt (publishedTime h b) (publishedTime h a) then b else a"
  have e4: "entries n m4 = [(JStr n, ?w)]"
    by (rule dedupStep_second [OF 4 b n e3 a])
  have e5: "entries n mf = [(JStr n, ?w)]"
    using forEach_other [OF 5, of n] others e4 by simp
  have k: "keyed mf"
    using forEach_keyed [OF mf] by (simp add: keyed_def)
  have "filter (\<lambda>i. serverName i = JStr n) (map snd mf) = map snd (entries n mf)"
    using k by (induction mf) (auto simp: keyed_def entries_def)
  with e5 o show ?thesis by simp
qed

lemma publishedTime_missing:
  "\<not> truthy (optGet (metaOf item) ''publishedAt'') \<Longrightarrow> publishedTime h item = Some 0"
  by (simp add: publishedTime_def orElse_def newDate_def)

lemma dateGt_asym: "dateGt x y \<Longrightarrow> \<not> dateGt y x"
  by (auto simp: dateGt_def split: option.splits)

lemma dateGt_irrefl: "\<not> dateGt x x"
  by (auto simp: dateGt_def split: option.splits)

text \<open>
  C3. Take any list of records (none \<^verbatim>\<open>null\<close>) in which exactly two, \<open>a\<close> before \<open>b\<close>,
  carry the server name \<open>n\<close>, neither with the \<^verbatim>\<open>isLatest\<close> flag. Then
  \<^verbatim>\<open>deduplicateServers\<close> returns, and of the two it keeps \<open>b\<close> when the publish time of \<open>b\<close>
  is strictly greater than that of \<open>a\<close>, and \<open>a\<close>, the record inserted first, otherwise: in
  particular when the time of \<open>a\<close> is the greater one and when the two are equal. A missing
  (or empty) \<^verbatim>\<open>publishedAt\<close> counts as time 0, the epoch, so two records without a timestamp
  tie and the first is kept.
\<close>

theorem deduplicateServers_by_timestamp:
  assumes "list_all nonNullish (pre @ [a] @ mid @ [b] @ post)"
    and "serverName a = JStr n" and "serverName b = JStr n" and "n \<noteq> []"
    and "\<forall>x\<in>set (pre @ mid @ post). serverName x \<noteq> JStr n"
    and "\<not> isLatest a" and "\<not> isLatest b"
  shows "\<exists>out. deduplicateServers h (pre @ [a] @ mid @ [b] @ post) = Some out
     \<and> filter (\<lambda>i. serverName i = JStr n) out =
         [if dateGt (publishedTime h b) (publishedTime h a) then b else a]
     \<and> (dateGt (publishedTime h a) (publishedTime h b) \<or> publishedTime h a = publishedTime h b
          \<longrightarrow> filter (\<lambda>i. serverName i = JStr n) out = [a])
     \<and> (\<forall>item. \<not> truthy (optGet (metaOf item) ''publishedAt'') \<longrightarrow> publishedTime h item = Some 0)"
proof -
  from deduplicateServers_total [OF assms(1)]
  obtain out where out: "deduplicateServers h (pre @ [a] @ mid @ [b] @ post) = Some out" by blast
  from deduplicateServers_pair [OF out assms(2,3,4,5)] assms(7)
  have f: "filter (\<lambda>i. serverName i = JStr n) out =
         [if dateGt (publishedTime h b) (publishedTime h a) then b else a]" by simp
  have "\<not> dateGt (publishedTime h b) (publishedTime h a)"
    if "dateGt (publishedTime h a) (publishedTime h b) \<or> publishedTime h a = publishedTime h b"
    using that dateGt_asym dateGt_irrefl by metis
  with out f show ?thesis by (auto simp: publishedTime_missing)
qed

lemma serverName_registryRecord [simp]: "serverName (registryRecord n v l p) = JStr n"
  by (simp add: serverName_def registryRecord_def optGet_def orElse_def)

lemma isLatest_registryRecord [simp]: "isLatest (registryRecord n v l p) = l"
  by (simp add: isLatest_def metaOf_def registryRecord_def optGet_def orElse_def)

lemma nonNullish_registryRecord [simp]: "nonNullish (registryRecord n v l p)"
  by (simp add: nonNullish_def registryRecord_def)

lemma publishedTime_registryRecord: "p \<noteq> [] \<Longrightarrow> publishedTime h (registryRecord n v l p) = dateValue h (JStr p)"
  by (simp add: publishedTime_def metaOf_def registryRecord_def optGet_def orElse_def newDate_def)

theorem deduplicateServers_by_timestamp_witness:
  "deduplicateServers exampleHost
      [registryRecord ''io.github.user/weather'' ''1.0.0'' False ''2025-06-01T00:00:00Z'',
       registryRecord ''io.github.user/maps'' ''1.0.0'' False ''2025-06-01T00:00:00Z'',
       registryRecord ''io.github.user/weather'' ''1.1.0'' False ''2025-09-01T00:00:00Z'']
    = Some [registryRecord ''io.github.user/weather'' ''1.1.0'' False ''2025-09-01T00:00:00Z'',
            registryRecord ''io.github.user/maps'' ''1.0.0'' False ''2025-06-01T00:00:00Z'']
   \<and> (\<exists>out. deduplicateServers exampleHost
      [registryRecord ''io.github.user/weather'' ''1.0.0'' False ''2025-06-01T00:00:00Z'',
       registryRecord ''io.github.user/maps'' ''1.0.0'' False ''2025-06-01T00:00:00Z'',
       registryRecord ''io.github.user/weather'' ''1.1.0'' False ''2025-09-01T00:00:00Z''] = Some out
     \<and> filter (\<lambda>i. serverName i = JStr ''io.github.user/weather'') out
        = [registryRecord ''io.github.user/weather'' ''1.1.0'' False ''2025-09-01T00:00:00Z''])"
proof -
  let ?a = "registryRecord ''io.github.user/weather'' ''1.0.0'' False ''2025-06-01T00:00:00Z''"
  let ?c = "registryRecord ''io.github.user/maps'' ''1.0.0'' False ''2025-06-01T00:00:00Z''"
  let ?b = "registryRecord ''io.github.user/weather'' ''1.1.0'' False ''2025-09-01T00:00:00Z''"
  have g: "dateGt (publishedTime exampleHost ?b) (publishedTime exampleHost ?a)"
    by (simp add: publishedTime_registryRecord exampleHost_def tableHost_def dateGt_def)
  have 1: "list_all nonNullish ([] @ [?a] @ [?c] @ [?b] @ [])" by simp
  have 5: "\<forall>x\<in>set ([] @ [?c] @ []). serverName x \<noteq> JStr ''io.github.user/weather''" by simp
  from deduplicateServers_by_timestamp [of "[]" ?a "[?c]" ?b "[]" "''io.github.user/weather''" exampleHost, OF 1 _ _ _ 5]
  obtain out where "deduplicateServers exampleHost ([] @ [?a] @ [?c] @ [?b] @ []) = Some out"
    and "filter (\<lambda>i. serverName i = JStr ''io.github.user/weather'') out =
         [if dateGt (publishedTime exampleHost ?b) (publishedTime exampleHost ?a) then ?b else ?a]"
    by auto
  with g have A: "\<exists>out. deduplicateServers exampleHost [?a, ?c, ?b] = Some out
     \<and> filter (\<lambda>i. serverName i = JStr ''io.github.user/weather'') out = [?b]"
    by simp
  have B: "deduplicateServers exampleHost [?a, ?c, ?b] = Some [?b, ?c]"
    by (simp add: deduplicateServers_def dedupStep_def serverOf_def officialMeta_def optGet_def orElse_def
      newDate_def dateGt_def tableHost_def exampleHost_def sameValueZero_def Let_def registryRecord_def)
  show ?thesis by (rule conjI [OF B A])
qed

text \<open>
  C1 at a concrete input: version 2.0.0 carries the \<^verbatim>\<open>isLatest\<close> flag and comes first,
  version 1.9.1 has no flag and was published three months later. The loop tests the flag
  of the record it is visiting only, never that of the stored one, so the later publish
  time wins and the flagged record is dropped.
\<close>

theorem deduplicateServers_latest_first_lost:
  "deduplicateServers exampleHost
      [registryRecord ''io.github.user/weather'' ''2.0.0'' True ''2025-06-01T00:00:00Z'',
       registryRecord ''io.github.user/weather'' ''1.9.1'' False ''2025-09-01T00:00:00Z'']
    = Some [registryRecord ''io.github.user/weather'' ''1.9.1'' False ''2025-09-01T00:00:00Z'']"
  by (simp add: deduplicateServers_def dedupStep_def serverOf_def officialMeta_def optGet_def orElse_def
      newDate_def dateGt_def tableHost_def exampleHost_def sameValueZero_def Let_def registryRecord_def)


subsection \<open>The installability filter\<close>

lemma serverOf_nonNullish:
  "nonNullish item \<Longrightarrow> serverOf item = Some (orElse (optGet item ''server'') (JObj []))"
  by (simp add: serverOf_def get_nonNullish)

lemma serverOf_Some: "serverOf item = Some s \<Longrightarrow> nonNullish item"
  by (cases item) (auto simp: serverOf_def nonNullish_def)

lemma js_includes_supported:
  "js_includes SUPPORTED_REGISTRY_TYPES t = (t \<in> {JStr ''npm'', JStr ''pypi'', JStr ''oci''})"
  by (auto simp: js_includes_def SUPPORTED_REGISTRY_TYPES_def sameValueZero_def)

lemma supportedPackage_nonNullish:
  "nonNullish pkg \<Longrightarrow> supportedPackage pkg = Some (supportedType pkg)"
  by (simp add: supportedPackage_def get_nonNullish js_includes_supported supportedType_def)

lemma supportedPackage_Some: "supportedPackage pkg = Some b \<Longrightarrow> nonNullish pkg"
  by (cases pkg) (auto simp: supportedPackage_def nonNullish_def)

lemma filterThrowing_supported:
  "list_all nonNullish pkgs \<Longrightarrow> filterThrowing supportedPackage pkgs = Some (filter supportedType pkgs)"
  by (induction pkgs) (auto simp: supportedPackage_nonNullish)

lemma filterThrowing_Some:
  "filterThrowing supportedPackage pkgs = Some ys \<Longrightarrow> list_all nonNullish pkgs"
  by (induction pkgs arbitrary: ys) (auto split: option.splits dest: supportedPackage_Some)

lemma hasInstallableMethod_packages:
  assumes "nonNullish item" "packagesOf item = JArr pkgs" "list_all nonNullish pkgs"
  shows "hasInstallableMethod item = Some (\<exists>p\<in>set pkgs. supportedType p)"
proof -
  have "length (filter supportedType pkgs) > 0 \<longleftrightarrow> (\<exists>p\<in>set pkgs. supportedType p)"
    by (simp add: filter_empty_conv)
  with assms show ?thesis
    by (simp add: hasInstallableMethod_def serverOf_nonNullish packagesOf_def [symmetric]
        js_filter_def filterThrowing_supported)
qed

lemma hasInstallableMethod_Some:
  assumes "hasInstallableMethod item = Some b"
  shows "nonNullish item \<and> (\<exists>pkgs. packagesOf item = JArr pkgs \<and> list_all nonNullish pkgs)"
proof -
  from assms obtain s where s: "serverOf item = Some s"
    by (auto simp: hasInstallableMethod_def split: Option.bind_splits)
  then have nn: "nonNullish item" by (rule serverOf_Some)
  from assms obtain ys where "js_filter supportedPackage (packagesOf item) = Some ys"
    by (auto simp: hasInstallableMethod_def serverOf_nonNullish [OF nn] packagesOf_def Let_def
        split: Option.bind_splits)
  then show ?thesis using nn
    by (cases "packagesOf item") (auto simp: js_filter_def dest: filterThrowing_Some)
qed

lemma countType_counters:
  "countType h s pkg = Some s' \<Longrightarrow>
     total_count s' = total_count s \<and> installable s' = installable s \<and> noPackages s' = noPackages s
     \<and> onlyRemotes s' = onlyRemotes s \<and> unsupportedRegistryType s' = unsupportedRegistryType s"
  by (auto simp: countType_def Let_def split: Option.bind_splits)

lemma forEach_countType_counters:
  "forEach (countType h) s pkgs = Some s' \<Longrightarrow>
     total_count s' = total_count s \<and> installable s' = installable s \<and> noPackages s' = noPackages s
     \<and> onlyRemotes s' = onlyRemotes s \<and> unsupportedRegistryType s' = unsupportedRegistryType s"
proof (induction pkgs arbitrary: s)
  case Nil
  then show ?case by simp
next
  case (Cons p ps)
  then obtain s1 where 1: "countType h s p = Some s1" and 2: "forEach (countType h) s1 ps = Some s'"
    by (auto split: option.splits)
  from Cons.IH [OF 2] countType_counters [OF 1] show ?case by simp
qed

lemma forEach_countType_total:
  "list_all nonNullish pkgs \<Longrightarrow> \<exists>s'. forEach (countType h) s pkgs = Some s'"
proof (induction pkgs arbitrary: s)
  case Nil
  then show ?case by simp
next
  case (Cons p ps)
  then obtain s1 where "countType h s p = Some s1"
    by (auto simp: countType_def get_nonNullish Let_def)
  with Cons show ?case by simp
qed

lemma filterCallback_result:
  assumes "filterCallback h stats item = Some (keep, stats')"
  shows "keep = isInstallable item
     \<and> total_count stats' = total_count stats
     \<and> installable stats' = installable stats + bump (isInstallable item)
     \<and> noPackages stats' = noPackages stats
          + bump (\<not> isInstallable item \<and> noPackagesAtAll item \<and> \<not> someRemotes h item)
     \<and> onlyRemotes stats' = onlyRemotes stats
          + bump (\<not> isInstallable item \<and> noPackagesAtAll item \<and> someRemotes h item)
     \<and> unsupportedRegistryType stats' = unsupportedRegistryType stats
          + bump (\<not> isInstallable item \<and> \<not> noPackagesAtAll item)"
proof -
  from assms obtain s where "serverOf item = Some s"
    by (auto simp: filterCallback_def split: Option.bind_splits)
  then have nn: "nonNullish item" by (rule serverOf_Some)
  note so = serverOf_nonNullish [OF nn]
  from assms obtain stats1 inst where
    1: "js_forEach (countType h) stats (packagesOf item) = Some stats1"
    and 2: "hasInstallableMethod item = Some inst"
    by (auto simp: filterCallback_def so packagesOf_def Let_def split: Option.bind_splits)
  from 1 have c: "total_count stats1 = total_count stats \<and> installable stats1 = installable stats
     \<and> noPackages stats1 = noPackages stats \<and> onlyRemotes stats1 = onlyRemotes stats
     \<and> unsupportedRegistryType stats1 = unsupportedRegistryType stats"
    by (cases "packagesOf item") (auto simp: js_forEach_def dest: forEach_countType_counters)
  from assms 1 2 c show ?thesis
    by (auto simp: filterCallback_def so packagesOf_def [symmetric] remotesOf_def [symmetric] Let_def
        isInstallable_def noPackagesAtAll_def someRemotes_def bump_def
        split: Option.bind_splits if_splits)
qed

lemma filterWith_result:
  "filterWith (filterCallback h) s xs = Some (ys, s') \<Longrightarrow>
     ys = filter isInstallable xs
     \<and> total_count s' = total_count s
     \<and> installable s' = installable s + length (filter isInstallable xs)
     \<and> noPackages s' = noPackages s
          + length (filter (\<lambda>i. \<not> isInstallable i \<and> noPackagesAtAll i \<and> \<not> someRemotes h i) xs)
     \<and> onlyRemotes s' = onlyRemotes s
          + length (filter (\<lambda>i. \<not> isInstallable i \<and> noPackagesAtAll i \<and> someRemotes h i) xs)
     \<and> unsupportedRegistryType s' = unsupportedRegistryType s
          + length (filter (\<lambda>i. \<not> isInstallable i \<and> \<not> noPackagesAtAll i) xs)"
proof (induction xs arbitrary: s ys)
  case Nil
  then show ?case by simp
next
  case (Cons x xs)
  from Cons.prems obtain keep s1 zs where
    1: "filterCallback h s x = Some (keep, s1)"
    and 2: "filterWith (filterCallback h) s1 xs = Some (zs, s')"
    and 3: "ys = (if keep then x # zs else zs)"
    by (auto split: option.splits)
  from filterCallback_result [OF 1] Cons.IH [OF 2] 3 show ?case
    by (simp add: bump_def)
qed

lemma filterCallback_total:
  assumes "readable item"
  shows "\<exists>r. filterCallback h stats item = Some r"
proof -
  from assms obtain pkgs where nn: "nonNullish item" and p: "packagesOf item = JArr pkgs"
    and ps: "list_all nonNullish pkgs"
    by (auto simp: readable_def split: jsval.splits)
  from forEach_countType_total [OF ps] obtain s1 where s1: "forEach (countType h) stats pkgs = Some s1"
    by blast
  have r: "truthy (remotesOf item)" by (simp add: remotesOf_def orElse_def)
  then have "\<exists>l. lengthOf (remotesOf item) = Some l"
    by (cases "remotesOf item") (auto simp: lengthOf_def split: option.splits)
  then obtain l where l: "lengthOf (remotesOf item) = Some l" by blast
  have lp: "lengthOf (JArr pkgs) = Some (JNum (int (length pkgs)))" by (simp add: lengthOf_def)
  show ?thesis
    using hasInstallableMethod_packages [OF nn p ps] s1 l
    by (auto simp: filterCallback_def serverOf_nonNullish [OF nn] packagesOf_def [symmetric]
        remotesOf_def [symmetric] p js_forEach_def lp)
qed

lemma filterWith_total:
  "list_all readable xs \<Longrightarrow> \<exists>r. filterWith (filterCallback h) s xs = Some r"
proof (induction xs arbitrary: s)
  case Nil
  then show ?case by simp
next
  case (Cons x xs)
  then obtain keep s1 where 1: "filterCallback h s x = Some (keep, s1)"
    using filterCallback_total [of x h s] by auto
  from Cons obtain r where "filterWith (filterCallback h) s1 xs = Some r" by fastforce
  with 1 show ?case by (cases r) simp
qed

lemma only_remotes_class:
  assumes "nonNullish item" "packagesOf item = JArr []" "remotesOf item = JArr (r # rs)"
  shows "\<not> isInstallable item \<and> noPackagesAtAll item \<and> someRemotes h item"
  using hasInstallableMethod_packages [OF assms(1,2)] assms(3)
  by (simp add: isInstallable_def noPackagesAtAll_def someRemotes_def assms(2) lengthOf_def gt0_def)

lemma only_remotes_callback:
  assumes "nonNullish item" "packagesOf item = JArr []" "remotesOf item = JArr (r # rs)"
  shows "filterCallback h stats item = Some (False, stats\<lparr>onlyRemotes := onlyRemotes stats + 1\<rparr>)"
  using hasInstallableMethod_packages [OF assms(1,2)] assms
  by (simp add: filterCallback_def serverOf_nonNullish packagesOf_def [symmetric]
        remotesOf_def [symmetric] js_forEach_def lengthOf_def gt0_def)

text \<open>
  C2. A record whose \<^verbatim>\<open>packages\<close> is an array (of packages none of which is \<^verbatim>\<open>null\<close>) is
  installable exactly when one of the packages has a \<^verbatim>\<open>registryType\<close> among \<^verbatim>\<open>npm\<close>, \<^verbatim>\<open>pypi\<close>
  and \<^verbatim>\<open>oci\<close>; \<^verbatim>\<open>filterInstallableServers\<close> keeps exactly the installable records, and its
  \<^verbatim>\<open>onlyRemotes\<close> counter is the number of records that are not installable, have
  \<^verbatim>\<open>packages.length === 0\<close> and \<^verbatim>\<open>remotes.length > 0\<close>. A record with zero packages and at least
  one remote is such a record: it is not installable, and the callback of the filter
  rejects it and adds one to \<^verbatim>\<open>onlyRemotes\<close>, leaving the other counters as they are. A record
  with one package of an unsupported type and one of a supported type is installable.
\<close>

theorem installable_iff_supported_package:
  "(nonNullish item \<and> packagesOf item = JArr pkgs \<and> list_all nonNullish pkgs \<longrightarrow>
      hasInstallableMethod item = Some (\<exists>p\<in>set pkgs. supportedType p))
   \<and> (filterInstallableServers h servers = Some (kept, stats) \<longrightarrow>
        kept = filter isInstallable servers
        \<and> onlyRemotes stats =
            length (filter (\<lambda>i. \<not> isInstallable i \<and> noPackagesAtAll i \<and> someRemotes h i) servers))
   \<and> (nonNullish item \<and> packagesOf item = JArr [] \<and> remotesOf item = JArr (r # rs) \<longrightarrow>
        \<not> isInstallable item \<and> noPackagesAtAll item \<and> someRemotes h item
        \<and> filterCallback h st item = Some (False, st\<lparr>onlyRemotes := onlyRemotes st + 1\<rparr>))
   \<and> (nonNullish item \<and> packagesOf item = JArr [p, q] \<and> nonNullish p \<and> nonNullish q
        \<and> (supportedType p \<and> \<not> supportedType q \<or> \<not> supportedType p \<and> supportedType q) \<longrightarrow>
        isInstallable item)"
proof -
  have 1: "hasInstallableMethod item = Some (\<exists>p\<in>set pkgs. supportedType p)"
    if "nonNullish item" "packagesOf item = JArr pkgs" "list_all nonNullish pkgs"
    using that by (rule hasInstallableMethod_packages)
  have 2: "kept = filter isInstallable servers
        \<and> onlyRemotes stats =
            length (filter (\<lambda>i. \<not> isInstallable i \<and> noPackagesAtAll i \<and> someRemotes h i) servers)"
    if "filterInstallableServers h servers = Some (kept, stats)"
    using filterWith_result [OF that [unfolded filterInstallableServers_def]]
    by (simp add: initialStats_def)
  have 3: "\<not> isInstallable item \<and> noPackagesAtAll item \<and> someRemotes h item
        \<and> filterCallback h st item = Some (False, st\<lparr>onlyRemotes := onlyRemotes st + 1\<rparr>)"
    if "nonNullish item" "packagesOf item = JArr []" "remotesOf item = JArr (r # rs)"
    using only_remotes_class [OF that] only_remotes_callback [OF that] by simp
  have 4: "isInstallable item"
    if "nonNullish item" "packagesOf item = JArr [p, q]" "nonNullish p" "nonNullish q"
      "supportedType p \<and> \<not> supportedType q \<or> \<not> supportedType p \<and> supportedType q"
    using hasInstallableMethod_packages [OF that(1,2)] that(3,4,5)
    by (auto simp: isInstallable_def)
  from 1 2 3 4 show ?thesis by blast
qed

lemmas filter_eval = filterInstallableServers_def filterCallback_def hasInstallableMethod_def
  serverOf_def js_filter_def supportedPackage_def js_includes_def SUPPORTED_REGISTRY_TYPES_def
  sameValueZero_def js_forEach_def countType_def lengthOf_def gt0_def initialStats_def
  optGet_def orElse_def Let_def counters_def

theorem installable_iff_supported_package_witness:
  "nonNullish remoteOnlyRecord \<and> packagesOf remoteOnlyRecord = JArr []
   \<and> remotesOf remoteOnlyRecord = JArr [JObj [(''type'', JStr ''sse''), (''url'', JStr ''https://example.com/sse'')]]
   \<and> \<not> isInstallable remoteOnlyRecord
   \<and> filterCallback exampleHost (initialStats 1) remoteOnlyRecord
        = Some (False, (initialStats 1)\<lparr>onlyRemotes := 1\<rparr>)
   \<and> isInstallable mixedRecord
   \<and> map_option (\<lambda>(k, s). (k, counters s))
        (filterInstallableServers exampleHost [remoteOnlyRecord, mixedRecord])
       = Some ([mixedRecord], 2, 1, 0, 1, 0)"
proof -
  let ?r = "JObj [(''type'', JStr ''sse''), (''url'', JStr ''https://example.com/sse'')]"
  let ?p = "JObj [(''registryType'', JStr ''mcpb''), (''identifier'', JStr ''mixed.mcpb'')]"
  let ?q = "JObj [(''registryType'', JStr ''npm''), (''identifier'', JStr ''mixed'')]"
  note t = installable_iff_supported_package
  have a: "nonNullish remoteOnlyRecord" "packagesOf remoteOnlyRecord = JArr []"
    "remotesOf remoteOnlyRecord = JArr [?r]"
    by (simp_all add: remoteOnlyRecord_def nonNullish_def packagesOf_def remotesOf_def optGet_def orElse_def)
  have b: "nonNullish mixedRecord" "packagesOf mixedRecord = JArr [?p, ?q]" "nonNullish ?p" "nonNullish ?q"
    "\<not> supportedType ?p" "supportedType ?q"
    by (simp_all add: mixedRecord_def nonNullish_def packagesOf_def supportedType_def optGet_def orElse_def)
  from t [of remoteOnlyRecord _ _ _ _ _ ?r "[]" "initialStats 1"] a
  have 1: "\<not> isInstallable remoteOnlyRecord
     \<and> filterCallback exampleHost (initialStats 1) remoteOnlyRecord
        = Some (False, (initialStats 1)\<lparr>onlyRemotes := 1\<rparr>)"
    by (simp add: initialStats_def)
  from t [of mixedRecord _ _ _ _ _ _ _ _ ?p ?q] b
  have 2: "isInstallable mixedRecord" by blast
  have 3: "map_option (\<lambda>(k, s). (k, counters s))
        (filterInstallableServers exampleHost [remoteOnlyRecord, mixedRecord])
       = Some ([mixedRecord], 2, 1, 0, 1, 0)"
    by (simp add: filter_eval remoteOnlyRecord_def mixedRecord_def)
  from 3 obtain kept stats where
    k: "filterInstallableServers exampleHost [remoteOnlyRecord, mixedRecord] = Some (kept, stats)"
    by auto
  with t [of _ _ exampleHost "[remoteOnlyRecord, mixedRecord]" kept stats] 1 2
  have "kept = [mixedRecord]" by simp
  with a 1 2 3 show ?thesis by simp
qed

lemma filterWith_sum:
  "filterWith (filterCallback h) s xs = Some (ys, s') \<Longrightarrow>
     installable s' + noPackages s' + onlyRemotes s' + unsupportedRegistryType s'
       = installable s + noPackages s + onlyRemotes s + unsupportedRegistryType s + length xs"
proof (induction xs arbitrary: s ys)
  case Nil
  then show ?case by simp
next
  case (Cons x xs)
  from Cons.prems obtain keep s1 zs where
    1: "filterCallback h s x = Some (keep, s1)"
    and 2: "filterWith (filterCallback h) s1 xs = Some (zs, s')"
    by (auto split: option.splits)
  from filterCallback_result [OF 1]
  have "installable s1 + noPackages s1 + onlyRemotes s1 + unsupportedRegistryType s1
       = installable s + noPackages s + onlyRemotes s + unsupportedRegistryType s + 1"
    by (auto simp: bump_def)
  with Cons.IH [OF 2] show ?case by simp
qed

text \<open>
  C8. When \<^verbatim>\<open>filterInstallableServers\<close> returns, the four counters of its \<^verbatim>\<open>stats\<close> add up
  to \<^verbatim>\<open>total\<close>, the length of the input: \<^verbatim>\<open>installable\<close> counts the installable records,
  and the three counters of \<^verbatim>\<open>filtered\<close> count the records that are not installable and
  have, in turn, no packages and no remotes, no packages but remotes, and packages (none
  of a supported type). For each record it rejects, the callback adds one to exactly one
  of the three and leaves the other two and \<^verbatim>\<open>installable\<close> as they were. The filter
  returns for every list of records it can read.
\<close>

theorem rejection_reasons_partition:
  "(filterInstallableServers h servers = Some (kept, stats) \<longrightarrow>
      installable stats + noPackages stats + onlyRemotes stats + unsupportedRegistryType stats
        = total_count stats
      \<and> total_count stats = length servers
      \<and> installable stats = length (filter isInstallable servers)
      \<and> noPackages stats = length (filter
           (\<lambda>i. \<not> isInstallable i \<and> noPackagesAtAll i \<and> \<not> someRemotes h i) servers)
      \<and> onlyRemotes stats = length (filter
           (\<lambda>i. \<not> isInstallable i \<and> noPackagesAtAll i \<and> someRemotes h i) servers)
      \<and> unsupportedRegistryType stats = length (filter
           (\<lambda>i. \<not> isInstallable i \<and> \<not> noPackagesAtAll i) servers))
   \<and> (filterCallback h st item = Some (False, st') \<longrightarrow>
        installable st' = installable st
        \<and> (noPackages st' = noPackages st + 1 \<and> onlyRemotes st' = onlyRemotes st
              \<and> unsupportedRegistryType st' = unsupportedRegistryType st
              \<and> noPackagesAtAll item \<and> \<not> someRemotes h item
           \<or> noPackages st' = noPackages st \<and> onlyRemotes st' = onlyRemotes st + 1
              \<and> unsupportedRegistryType st' = unsupportedRegistryType st
              \<and> noPackagesAtAll item \<and> someRemotes h item
           \<or> noPackages st' = noPackages st \<and> onlyRemotes st' = onlyRemotes st
              \<and> unsupportedRegistryType st' = unsupportedRegistryType st + 1
              \<and> \<not> noPackagesAtAll item))
   \<and> (list_all readable servers \<longrightarrow>
        (\<exists>kept stats. filterInstallableServers h servers = Some (kept, stats)))"
proof -
  have 1: "installable stats + noPackages stats + onlyRemotes stats + unsupportedRegistryType stats
        = total_count stats
      \<and> total_count stats = length servers
      \<and> installable stats = length (filter isInstallable servers)
      \<and> noPackages stats = length (filter
           (\<lambda>i. \<not> isInstallable i \<and> noPackagesAtAll i \<and> \<not> someRemotes h i) servers)
      \<and> onlyRemotes stats = length (filter
           (\<lambda>i. \<not> isInstallable i \<and> noPackagesAtAll i \<and> someRemotes h i) servers)
      \<and> unsupportedRegistryType stats = length (filter
           (\<lambda>i. \<not> isInstallable i \<and> \<not> noPackagesAtAll i) servers)"
    if r: "filterInstallableServers h servers = Some (kept, stats)"
    using filterWith_result [OF r [unfolded filterInstallableServers_def]]
      filterWith_sum [OF r [unfolded filterInstallableServers_def]]
    by (simp add: initialStats_def)
  have 2: "installable st' = installable st
        \<and> (noPackages st' = noPackages st + 1 \<and> onlyRemotes st' = onlyRemotes st
              \<and> unsupportedRegistryType st' = unsupportedRegistryType st
              \<and> noPackagesAtAll item \<and> \<not> someRemotes h item
           \<or> noPackages st' = noPackages st \<and> onlyRemotes st' = onlyRemotes st + 1
              \<and> unsupportedRegistryType st' = unsupportedRegistryType st
              \<and> noPackagesAtAll item \<and> someRemotes h item
           \<or> noPackages st' = noPackages st \<and> onlyRemotes st' = onlyRemotes st
              \<and> unsupportedRegistryType st' = unsupportedRegistryType st + 1
              \<and> \<not> noPackagesAtAll item)"
    if c: "filterCallback h st item = Some (False, st')"
    using filterCallback_result [OF c] by (auto simp: bump_def)
  have 3: "\<exists>kept stats. filterInstallableServers h servers = Some (kept, stats)"
    if "list_all readable servers"
    using filterWith_total [OF that, of h "initialStats (length servers)"]
    by (auto simp: filterInstallableServers_def)
  from 1 2 3 show ?thesis by blast
qed

theorem rejection_reasons_partition_witness:
  "list_all readable [remoteOnlyRecord, mixedRecord, bareRecord, nugetRecord]
   \<and> map_option (\<lambda>(k, s). (k, counters s))
        (filterInstallableServers exampleHost [remoteOnlyRecord, mixedRecord, bareRecord, nugetRecord])
       = Some ([mixedRecord], 4, 1, 1, 1, 1)
   \<and> map_option (\<lambda>(k, s). (k, counters s)) (filterCallback exampleHost (initialStats 1) nugetRecord)
       = Some (False, 1, 0, 0, 0, 1)
   \<and> \<not> noPackagesAtAll nugetRecord"
proof -
  let ?xs = "[remoteOnlyRecord, mixedRecord, bareRecord, nugetRecord]"
  note defs = remoteOnlyRecord_def mixedRecord_def bareRecord_def nugetRecord_def
  note t = rejection_reasons_partition
  have r: "list_all readable ?xs"
    by (simp add: readable_def nonNullish_def packagesOf_def optGet_def orElse_def defs)
  with t [of exampleHost ?xs] obtain kept stats where
    k: "filterInstallableServers exampleHost ?xs = Some (kept, stats)" by blast
  with t [of exampleHost ?xs kept stats]
  have s: "installable stats + noPackages stats + onlyRemotes stats + unsupportedRegistryType stats
        = total_count stats" by blast
  have e: "map_option (\<lambda>(k, s). (k, counters s)) (filterInstallableServers exampleHost ?xs)
       = Some ([mixedRecord], 4, 1, 1, 1, 1)"
    by (simp add: filter_eval defs)
  have c: "map_option (\<lambda>(k, s). (k, counters s)) (filterCallback exampleHost (initialStats 1) nugetRecord)
       = Some (False, 1, 0, 0, 0, 1)"
    by (simp add: filter_eval defs)
  then obtain st' where c': "filterCallback exampleHost (initialStats 1) nugetRecord = Some (False, st')"
    by auto
  have n: "\<not> noPackagesAtAll nugetRecord"
    by (simp add: noPackagesAtAll_def packagesOf_def lengthOf_def optGet_def orElse_def defs)
  from t [of exampleHost _ _ _ "initialStats 1" nugetRecord st'] c' n
  have "unsupportedRegistryType st' = unsupportedRegistryType (initialStats 1) + 1" by blast
  with r e c n s k show ?thesis by simp
qed

subsection \<open>The transform functions\<close>

lemma isJson_simps [simp]:
  "\<not> isJson JUndefined" "isJson JNull" "isJson (JBool b)" "isJson (JNum n)" "isJson (JStr s)"
  "isJson (JArr xs) = list_all isJson xs"
  "isJson (JObj fs) = list_all (\<lambda>p. isJson (snd p)) fs"
  by (auto simp: isJson_def list_all_iff)

lemma isJson_optGet: "isJson v \<Longrightarrow> truthy (optGet v f) \<Longrightarrow> isJson (optGet v f)"
proof (cases v)
  case (JObj fs)
  assume j: "isJson v" and t: "truthy (optGet v f)"
  show ?thesis
  proof (cases "map_of fs f")
    case None
    with JObj t show ?thesis by (simp add: optGet_def)
  next
    case (Some x)
    then have "(f, x) \<in> set fs" by (rule map_of_SomeD)
    with j JObj have "isJson x" by (auto simp: list_all_iff)
    with JObj Some show ?thesis by (simp add: optGet_def)
  qed
qed (auto simp: optGet_def)

lemma isJson_orElse [simp]: "isJson v \<Longrightarrow> isJson d \<Longrightarrow> isJson (orElse (optGet v f) d)"
  by (auto simp: orElse_def isJson_optGet)

lemma isJson_orElse2 [simp]:
  "isJson v \<Longrightarrow> isJson d \<Longrightarrow> isJson (orElse (orElse (optGet v f) (optGet v g)) d)"
  by (auto simp: orElse_def isJson_optGet)

lemma paths_json [simp]: "isJson v \<Longrightarrow> undefinedPaths v = []"
  by (simp add: isJson_def)

lemma paths_orElse_undefined [simp]:
  "isJson v \<Longrightarrow> undefinedPaths (orElse (optGet v f) JUndefined)
     = (if truthy (optGet v f) then [] else [[]])"
  using isJson_optGet [of v f] by (auto simp: orElse_def)

lemma get_Some_optGet: "get v f = Some x \<Longrightarrow> x = optGet v f \<and> nonNullish v"
  by (cases v) (auto simp: optGet_def nonNullish_def)

lemma those_map_Some:
  "those (map f xs) = Some ys \<Longrightarrow> list_all2 (\<lambda>x y. f x = Some y) xs ys"
  by (induction xs arbitrary: ys) (auto split: option.splits)

lemma js_map_paths:
  assumes "js_map cb v = Some ys" "isJson v"
    and "\<forall>x y. isJson x \<longrightarrow> cb x = Some y \<longrightarrow> set (undefinedPaths y) \<subseteq> S"
  shows "set (undefinedPaths (JArr ys)) \<subseteq> S"
proof -
  from assms(1) obtain xs where v: "v = JArr xs" and t: "those (map cb xs) = Some ys"
    by (cases v) (auto simp: js_map_def)
  from those_map_Some [OF t] assms(2) [unfolded v] show ?thesis
  proof (induction xs ys rule: list_all2_induct)
    case Nil
    then show ?case by simp
  next
    case (Cons x xs y ys)
    from Cons.prems have "isJson x" by simp
    with Cons.hyps(1) assms(3) have "set (undefinedPaths y) \<subseteq> S" by blast
    with Cons show ?case by simp
  qed
qed

lemma paths_named: "set (undefinedPaths (JArr (named ys))) \<subseteq> set (undefinedPaths (JArr ys))"
  by (auto simp: named_def)

lemma js_map_named_paths:
  assumes "js_map cb (orElse (optGet v f) (JArr [])) = Some ys" "isJson v"
    and "\<forall>x y. isJson x \<longrightarrow> cb x = Some y \<longrightarrow> set (undefinedPaths y) \<subseteq> S"
  shows "set (undefinedPaths (JArr (named ys))) \<subseteq> S"
proof -
  have "isJson (orElse (optGet v f) (JArr []))" using assms(2) by simp
  from js_map_paths [OF assms(1) this assms(3)]
  have "set (undefinedPaths (JArr ys)) \<subseteq> S" .
  with paths_named [of ys] show ?thesis by blast
qed

lemma environmentVariable_paths:
  "isJson env \<Longrightarrow> environmentVariable env = Some y \<Longrightarrow>
     set (undefinedPaths y) \<subseteq> {[''description''], [''default''], [''choices'']}"
  by (auto simp: environmentVariable_def split: Option.bind_splits if_splits dest!: get_Some_optGet)

lemma packageArgument_paths:
  "isJson arg \<Longrightarrow> packageArgument arg = Some y \<Longrightarrow>
     set (undefinedPaths y) \<subseteq> {[''description''], [''default'']}"
  by (auto simp: packageArgument_def split: Option.bind_splits if_splits dest!: get_Some_optGet)

lemma runtimeArgument_paths:
  "isJson arg \<Longrightarrow> runtimeArgument arg = Some y \<Longrightarrow>
     set (undefinedPaths y) \<subseteq> {[''description''], [''default''], [''valueHint'']}"
  by (auto simp: runtimeArgument_def split: Option.bind_splits if_splits dest!: get_Some_optGet)

lemma remoteHeader_paths:
  "isJson header \<Longrightarrow> remoteHeader header = Some y \<Longrightarrow>
     set (undefinedPaths y) \<subseteq> {[''description''], [''default'']}"
  by (auto simp: remoteHeader_def split: Option.bind_splits if_splits dest!: get_Some_optGet)

lemma cons_image_subset: "S \<subseteq> T \<Longrightarrow> (#) k ` T \<subseteq> U \<Longrightarrow> (#) k ` S \<subseteq> U"
  by blast

lemma transformPackage_paths:
  assumes "isJson pkg" "transformPackage pkg = Some y"
  shows "set (undefinedPaths y) \<subseteq> set optionalOfPackage"
proof -
  from assms(2) obtain evs pas ras where
    e: "js_map environmentVariable (orElse (optGet pkg ''environmentVariables'') (JArr [])) = Some evs"
    and p: "js_map packageArgument (orElse (optGet pkg ''packageArguments'') (JArr [])) = Some pas"
    and r: "js_map runtimeArgument (orElse (optGet pkg ''runtimeArguments'') (JArr [])) = Some ras"
    by (auto simp: transformPackage_def Let_def split: Option.bind_splits)
  have E: "set (undefinedPaths (JArr (named evs))) \<subseteq> {[''description''], [''default''], [''choices'']}"
    using js_map_named_paths [OF e assms(1)] environmentVariable_paths by blast
  have P: "set (undefinedPaths (JArr (named pas))) \<subseteq> {[''description''], [''default'']}"
    using js_map_named_paths [OF p assms(1)] packageArgument_paths by blast
  have R: "set (undefinedPaths (JArr (named ras))) \<subseteq> {[''description''], [''default''], [''valueHint'']}"
    using js_map_named_paths [OF r assms(1)] runtimeArgument_paths by blast
  have t: "undefinedPaths (if truthy (optGet pkg ''transport'')
             then JObj [(''type'', orElse (optGet (optGet pkg ''transport'') ''type'') (JStr ''stdio''))]
             else JObj [(''type'', JStr ''stdio'')]) = []"
    using isJson_optGet [OF assms(1), of "''transport''"] by simp
  from assms(2) e p r have y: "y = JObj
         [(''registryType'', orElse (optGet pkg ''registryType'') (JStr ''npm'')),
          (''identifier'', orElse (optGet pkg ''identifier'') (JStr '''')),
          (''version'', orElse (optGet pkg ''version'') JUndefined),
          (''runtimeHint'', orElse (optGet pkg ''runtimeHint'') JUndefined),
          (''transport'',
             if truthy (optGet pkg ''transport'')
             then JObj [(''type'', orElse (optGet (optGet pkg ''transport'') ''type'') (JStr ''stdio''))]
             else JObj [(''type'', JStr ''stdio'')]),
          (''environmentVariables'', JArr (named evs)),
          (''packageArguments'', JArr (named pas)),
          (''runtimeArguments'', JArr (named ras))]"
    by (auto simp: transformPackage_def Let_def split: Option.bind_splits dest!: get_Some_optGet)
  have u: "undefinedPaths y =
      (if truthy (optGet pkg ''version'') then [] else [[''version'']])
      @ (if truthy (optGet pkg ''runtimeHint'') then [] else [[''runtimeHint'']])
      @ map ((#) ''environmentVariables'') (undefinedPaths (JArr (named evs)))
      @ map ((#) ''packageArguments'') (undefinedPaths (JArr (named pas)))
      @ map ((#) ''runtimeArguments'') (undefinedPaths (JArr (named ras)))"
    unfolding y using assms(1) t by (simp del: undefinedPaths.simps(2))
  have 1: "set (if truthy (optGet pkg ''version'') then [] else [[''version'']]) \<subseteq> set optionalOfPackage"
    by (simp add: optionalOfPackage_def)
  have 2: "set (if truthy (optGet pkg ''runtimeHint'') then [] else [[''runtimeHint'']]) \<subseteq> set optionalOfPackage"
    by (simp add: optionalOfPackage_def)
  have 3: "(#) ''environmentVariables'' ` set (undefinedPaths (JArr (named evs))) \<subseteq> set optionalOfPackage"
    by (rule cons_image_subset [OF E]) (simp add: optionalOfPackage_def)
  have 4: "(#) ''packageArguments'' ` set (undefinedPaths (JArr (named pas))) \<subseteq> set optionalOfPackage"
    by (rule cons_image_subset [OF P]) (simp add: optionalOfPackage_def)
  have 5: "(#) ''runtimeArguments'' ` set (undefinedPaths (JArr (named ras))) \<subseteq> set optionalOfPackage"
    by (rule cons_image_subset [OF R]) (simp add: optionalOfPackage_def)
  show ?thesis
    unfolding u using 1 2 3 4 5 by (simp only: set_append set_map Un_subset_iff)
qed

lemma repositoryOf_paths:
  assumes "isJson server"
  shows "undefinedPaths (repositoryOf server) =
     (if truthy (optGet server ''repository'') \<and> \<not> truthy (optGet (optGet server ''repository'') ''subfolder'')
      then [[''subfolder'']] else [])"
  using assms isJson_optGet [OF assms, of "''repository''"]
  by (simp add: repositoryOf_def Let_def)

lemma js_find_result: "js_find p xs = Some r \<Longrightarrow> r = JUndefined \<or> r \<in> set xs"
  by (induction xs) (auto split: option.splits bool.splits)

lemma js_find_src:
  assumes "js_find p xs = Some r" "list_all isJson xs" "truthy (optGet r ''src'')"
  shows "get r ''src'' = Some (optGet r ''src'') \<and> isJson (optGet r ''src'')"
proof -
  from js_find_result [OF assms(1)] assms(3) have "r \<in> set xs" by auto
  with assms(2) have j: "isJson r" by (simp add: list_all_iff)
  from assms(3) have "nonNullish r" by (cases r) (auto simp: nonNullish_def optGet_def)
  with j assms(3) show ?thesis by (simp add: get_nonNullish isJson_optGet)
qed

lemma getIconUrl_json:
  assumes "isJson icons" "getIconUrl icons = Some u"
  shows "isJson u"
proof (cases icons)
  case (JArr xs)
  with assms(1) have xs: "list_all isJson xs" by simp
  show ?thesis
  proof (cases "xs = []")
    case True
    with JArr assms(2) show ?thesis by (simp add: getIconUrl_def)
  next
    case False
    from assms(2) JArr False obtain l where
      l: "js_find (\<lambda>icon. do { t \<leftarrow> get icon ''theme''; Some (t = JStr ''light'') }) xs = Some l"
      by (auto simp: getIconUrl_def split: Option.bind_splits)
    show ?thesis
    proof (cases "truthy (optGet l ''src'')")
      case True
      with assms(2) JArr False l js_find_src [OF l xs] show ?thesis
        by (simp add: getIconUrl_def)
    next
      case nl: False
      from assms(2) JArr False l nl obtain d where
        d: "js_find (\<lambda>icon. do { t \<leftarrow> get icon ''theme''; Some (\<not> truthy t) }) xs = Some d"
        by (auto simp: getIconUrl_def split: Option.bind_splits)
      show ?thesis
      proof (cases "truthy (optGet d ''src'')")
        case True
        with assms(2) JArr False l nl d js_find_src [OF d xs] show ?thesis
          by (simp add: getIconUrl_def)
      next
        case nd: False
        from assms(2) JArr False l nl d nd obtain f where
          f: "js_find (\<lambda>icon. do { s \<leftarrow> get icon ''src''; Some (truthy s) }) xs = Some f"
          and u: "u = orElse (optGet f ''src'') JNull"
          by (auto simp: getIconUrl_def split: Option.bind_splits)
        show ?thesis using u js_find_src [OF f xs] by (auto simp: orElse_def)
      qed
    qed
  qed
qed (use assms(2) in \<open>auto simp: getIconUrl_def\<close>)

lemma serverOf_json: "isJson item \<Longrightarrow> serverOf item = Some server \<Longrightarrow> isJson server"
  by (auto simp: serverOf_def split: Option.bind_splits dest!: get_Some_optGet)

lemma officialMeta_json: "isJson item \<Longrightarrow> officialMeta item = Some meta \<Longrightarrow> isJson meta"
proof -
  assume j: "isJson item" and m: "officialMeta item = Some meta"
  from m have meta: "meta = orElse (optGet (optGet item ''_meta'') ''io.modelcontextprotocol.registry/official'') (JObj [])"
    by (auto simp: officialMeta_def split: Option.bind_splits dest!: get_Some_optGet)
  show "isJson meta"
  proof (cases "truthy (optGet item ''_meta'')")
    case True
    with j have "isJson (optGet item ''_meta'')" by (rule isJson_optGet)
    then show ?thesis unfolding meta by simp
  next
    case False
    then have "optGet (optGet item ''_meta'') ''io.modelcontextprotocol.registry/official'' = JUndefined"
      by (cases "optGet item ''_meta''") (auto simp: optGet_def)
    then show ?thesis unfolding meta by (simp add: orElse_def)
  qed
qed

lemma icons_json: "isJson server \<Longrightarrow> getIconUrl (optGet server ''icons'') = Some u \<Longrightarrow> isJson u"
proof (cases "truthy (optGet server ''icons'')")
  case True
  assume "isJson server" "getIconUrl (optGet server ''icons'') = Some u"
  with True show ?thesis using getIconUrl_json isJson_optGet by blast
next
  case False
  assume "getIconUrl (optGet server ''icons'') = Some u"
  with False show ?thesis
    by (cases "optGet server ''icons''") (auto simp: getIconUrl_def)
qed

lemma transformListItem_paths:
  assumes "isJson item" "transformListItem item = Some y"
  shows "set (undefinedPaths y) \<subseteq> set optionalOfListItem"
proof -
  from assms(2) obtain server meta iconUrl where
    s: "serverOf item = Some server" and m: "officialMeta item = Some meta"
    and i: "getIconUrl (optGet server ''icons'') = Some iconUrl"
    by (auto simp: transformListItem_def split: Option.bind_splits)
  note js = serverOf_json [OF assms(1) s] and jm = officialMeta_json [OF assms(1) m]
  note ji = icons_json [OF js i]
  from assms(2) s m i have y: "y = JObj
       [(''id'', orElse (optGet server ''name'') (JStr '''')),
        (''displayName'', orElse (orElse (optGet server ''title'') (optGet server ''name'')) (JStr '''')),
        (''description'', orElse (optGet server ''description'') (JStr '''')),
        (''iconUrl'', iconUrl),
        (''version'', orElse (optGet server ''version'') (JStr '''')),
        (''status'', orElse (optGet meta ''status'') (JStr ''active'')),
        (''publishedAt'', orElse (optGet meta ''publishedAt'') (JStr '''')),
        (''repository'', repositoryOf server)]"
    by (auto simp: transformListItem_def)
  have "undefinedPaths y = map ((#) ''repository'') (undefinedPaths (repositoryOf server))"
    unfolding y using js jm ji by simp
  then show ?thesis
    by (auto simp: repositoryOf_paths [OF js] optionalOfListItem_def split: if_splits)
qed

lemma transformRemote_paths:
  assumes "isJson remote" "transformRemote remote = Some y"
  shows "set (undefinedPaths y) \<subseteq> {[''headers'', ''description''], [''headers'', ''default'']}"
proof -
  from assms(2) obtain hs where
    h: "js_map remoteHeader (orElse (optGet remote ''headers'') (JArr [])) = Some hs"
    by (auto simp: transformRemote_def split: Option.bind_splits)
  have H: "set (undefinedPaths (JArr (named hs))) \<subseteq> {[''description''], [''default'']}"
    using js_map_named_paths [OF h assms(1)] remoteHeader_paths by blast
  from assms(2) h have y: "y = JObj
       [(''type'', orElse (optGet remote ''type'') (JStr ''streamable-http'')),
        (''url'', orElse (optGet remote ''url'') (JStr '''')),
        (''headers'', JArr (named hs))]"
    by (auto simp: transformRemote_def split: Option.bind_splits dest!: get_Some_optGet)
  have u: "undefinedPaths y = map ((#) ''headers'') (undefinedPaths (JArr (named hs)))"
    unfolding y using assms(1) by (simp del: undefinedPaths.simps(2))
  show ?thesis unfolding u
    by (simp only: set_map) (rule cons_image_subset [OF H], simp)
qed

lemma filterThrowing_subset: "filterThrowing p xs = Some ys \<Longrightarrow> set ys \<subseteq> set xs"
  by (induction xs arbitrary: ys) (auto split: option.splits if_splits)

lemma transformDetail_Some:
  assumes "transformDetail item = Some y"
  obtains supported packages mapped iconUrl where
    "nonNullish item"
    "js_filter supportedPackage (packagesOf item) = Some supported"
    "those (map transformPackage supported) = Some packages"
    "js_map transformRemote (remotesOf item) = Some mapped"
    "getIconUrl (optGet (orElse (optGet item ''server'') (JObj [])) ''icons'') = Some iconUrl"
    "y = JObj
         [(''id'', orElse (optGet (orElse (optGet item ''server'') (JObj [])) ''name'') (JStr '''')),
          (''displayName'', orElse (orElse (optGet (orElse (optGet item ''server'') (JObj [])) ''title'')
               (optGet (orElse (optGet item ''server'') (JObj [])) ''name'')) (JStr '''')),
          (''description'', orElse (optGet (orElse (optGet item ''server'') (JObj [])) ''description'') (JStr '''')),
          (''version'', orElse (optGet (orElse (optGet item ''server'') (JObj [])) ''version'') (JStr '''')),
          (''status'', orElse (optGet (metaOf item) ''status'') (JStr ''active'')),
          (''publishedAt'', orElse (optGet (metaOf item) ''publishedAt'') (JStr '''')),
          (''updatedAt'', orElse (optGet (metaOf item) ''updatedAt'') (JStr '''')),
          (''iconUrl'', iconUrl),
          (''websiteUrl'', orElse (optGet (orElse (optGet item ''server'') (JObj [])) ''websiteUrl'') JNull),
          (''repository'', repositoryOf (orElse (optGet item ''server'') (JObj []))),
          (''packages'', JArr packages),
          (''remotes'', JArr (filter (\<lambda>r. truthy (optGet r ''url'')) mapped))]"
proof -
  from assms obtain s where "serverOf item = Some s"
    by (auto simp: transformDetail_def split: Option.bind_splits)
  then have nn: "nonNullish item" by (rule serverOf_Some)
  have m: "officialMeta item = Some (metaOf item)"
    using nn by (simp add: officialMeta_def metaOf_def get_nonNullish)
  from assms show ?thesis
    by (auto simp: transformDetail_def serverOf_nonNullish [OF nn] m Let_def
        packagesOf_def [symmetric] remotesOf_def [symmetric]
        split: Option.bind_splits intro!: that [OF nn])
qed

lemma metaOf_json: "isJson item \<Longrightarrow> isJson (metaOf item)"
proof (cases "nonNullish item")
  case True
  assume "isJson item"
  moreover from True have "officialMeta item = Some (metaOf item)"
    by (simp add: officialMeta_def metaOf_def get_nonNullish)
  ultimately show ?thesis by (rule officialMeta_json)
next
  case False
  then show ?thesis by (cases item) (auto simp: nonNullish_def metaOf_def orElse_def optGet_def)
qed

lemma packagesOf_json: "isJson item \<Longrightarrow> isJson (packagesOf item)"
  by (simp add: packagesOf_def)

lemma remotesOf_json: "isJson item \<Longrightarrow> isJson (remotesOf item)"
  by (simp add: remotesOf_def)

lemma subset_Un3:
  "A \<subseteq> X \<Longrightarrow> A \<subseteq> X \<union> Y \<union> Z"
  "A \<subseteq> Y \<Longrightarrow> A \<subseteq> X \<union> Y \<union> Z"
  "A \<subseteq> Z \<Longrightarrow> A \<subseteq> X \<union> Y \<union> Z"
  by blast+

lemma set_optionalOfDetail:
  "set optionalOfDetail =
     {[''repository'', ''subfolder'']} \<union> (#) ''packages'' ` set optionalOfPackage
     \<union> {[''remotes'', ''headers'', ''description''], [''remotes'', ''headers'', ''default'']}"
  by (simp only: optionalOfDetail_def set_append set_map list.set Un_assoc)

lemma transformDetail_paths:
  assumes "isJson item" "transformDetail item = Some y"
  shows "set (undefinedPaths y) \<subseteq> set optionalOfDetail"
proof -
  let ?server = "orElse (optGet item ''server'') (JObj [])"
  from assms(2) obtain supported packages mapped iconUrl where
    nn: "nonNullish item"
    and f: "js_filter supportedPackage (packagesOf item) = Some supported"
    and p: "those (map transformPackage supported) = Some packages"
    and r: "js_map transformRemote (remotesOf item) = Some mapped"
    and i: "getIconUrl (optGet ?server ''icons'') = Some iconUrl"
    and y: "y = JObj
         [(''id'', orElse (optGet ?server ''name'') (JStr '''')),
          (''displayName'', orElse (orElse (optGet ?server ''title'') (optGet ?server ''name'')) (JStr '''')),
          (''description'', orElse (optGet ?server ''description'') (JStr '''')),
          (''version'', orElse (optGet ?server ''version'') (JStr '''')),
          (''status'', orElse (optGet (metaOf item) ''status'') (JStr ''active'')),
          (''publishedAt'', orElse (optGet (metaOf item) ''publishedAt'') (JStr '''')),
          (''updatedAt'', orElse (optGet (metaOf item) ''updatedAt'') (JStr '''')),
          (''iconUrl'', iconUrl),
          (''websiteUrl'', orElse (optGet ?server ''websiteUrl'') JNull),
          (''repository'', repositoryOf ?server),
          (''packages'', JArr packages),
          (''remotes'', JArr (filter (\<lambda>r. truthy (optGet r ''url'')) mapped))]"
    by (rule transformDetail_Some)
  have js: "isJson ?server" using assms(1) by simp
  note jm = metaOf_json [OF assms(1)]
  note ji = icons_json [OF js i]
  from f obtain pkgs where pk: "packagesOf item = JArr pkgs" and ft: "filterThrowing supportedPackage pkgs = Some supported"
    by (cases "packagesOf item") (auto simp: js_filter_def)
  from packagesOf_json [OF assms(1)] pk filterThrowing_subset [OF ft]
  have "isJson (JArr supported)" by (auto simp: list_all_iff)
  moreover from p have "js_map transformPackage (JArr supported) = Some packages"
    by (simp add: js_map_def)
  ultimately have P: "set (undefinedPaths (JArr packages)) \<subseteq> set optionalOfPackage"
    using transformPackage_paths by (intro js_map_paths [where cb = transformPackage]) blast+
  have "set (undefinedPaths (JArr mapped)) \<subseteq> {[''headers'', ''description''], [''headers'', ''default'']}"
    using r remotesOf_json [OF assms(1)] transformRemote_paths
    by (intro js_map_paths [where cb = transformRemote]) blast+
  then have R: "set (undefinedPaths (JArr (filter (\<lambda>r. truthy (optGet r ''url'')) mapped)))
      \<subseteq> {[''headers'', ''description''], [''headers'', ''default'']}"
    by auto
  have u: "undefinedPaths y =
      map ((#) ''repository'') (undefinedPaths (repositoryOf ?server))
      @ map ((#) ''packages'') (undefinedPaths (JArr packages))
      @ map ((#) ''remotes'') (undefinedPaths (JArr (filter (\<lambda>r. truthy (optGet r ''url'')) mapped)))"
    unfolding y using js jm ji by (simp del: undefinedPaths.simps(2))
  have 1: "set (map ((#) ''repository'') (undefinedPaths (repositoryOf ?server))) \<subseteq> set optionalOfDetail"
    unfolding set_optionalOfDetail
    by (rule subset_Un3(1)) (auto simp: repositoryOf_paths [OF js] split: if_splits)
  have 2: "(#) ''packages'' ` set (undefinedPaths (JArr packages)) \<subseteq> set optionalOfDetail"
    unfolding set_optionalOfDetail
    by (rule subset_Un3(2)) (rule image_mono [OF P])
  have 3: "(#) ''remotes'' ` set (undefinedPaths (JArr (filter (\<lambda>r. truthy (optGet r ''url'')) mapped)))
      \<subseteq> set optionalOfDetail"
    unfolding set_optionalOfDetail
    by (rule subset_Un3(3)) (rule cons_image_subset [OF R], simp)
  show ?thesis
    unfolding u using 1 2 3 by (simp only: set_append set_map Un_subset_iff)
qed

text \<open>
  C7, as the code has it. The transform functions give a defined value to every field but
  the ones they write as \<^verbatim>\<open>x.f || undefined\<close>: for a record parsed from JSON, the only
  fields of the outputs of \<^verbatim>\<open>transformListItem\<close>, \<^verbatim>\<open>transformPackage\<close> and \<^verbatim>\<open>transformDetail\<close>
  that can hold \<^verbatim>\<open>undefined\<close> are the repository's \<^verbatim>\<open>subfolder\<close>, a package's \<^verbatim>\<open>version\<close> and
  \<^verbatim>\<open>runtimeHint\<close>, and the \<^verbatim>\<open>description\<close>, \<^verbatim>\<open>default\<close>, \<^verbatim>\<open>choices\<close> and \<^verbatim>\<open>valueHint\<close> of
  environment variables, arguments and headers. Every other field, at any depth, is
  defined whatever the registry leaves out.
\<close>

theorem transforms_define_all_but_optional:
  "(isJson item \<and> transformListItem item = Some entry \<longrightarrow>
      set (undefinedPaths entry) \<subseteq> set optionalOfListItem)
   \<and> (isJson pkg \<and> transformPackage pkg = Some package \<longrightarrow>
      set (undefinedPaths package) \<subseteq> set optionalOfPackage)
   \<and> (isJson item \<and> transformDetail item = Some detail \<longrightarrow>
      set (undefinedPaths detail) \<subseteq> set optionalOfDetail)"
  using transformListItem_paths [of item entry] transformPackage_paths [of pkg package]
    transformDetail_paths [of item detail]
  by blast

theorem transforms_define_all_but_optional_witness:
  "isJson mixedRecord
   \<and> map_option undefinedPaths (transformDetail mixedRecord)
       = Some [[''packages'', ''version''], [''packages'', ''runtimeHint'']]
   \<and> set [[''packages'', ''version''], [''packages'', ''runtimeHint'']] \<subseteq> set optionalOfDetail
   \<and> map_option undefinedPaths (transformListItem mixedRecord) = Some []
   \<and> isJson (JObj [(''registryType'', JStr ''npm''), (''identifier'', JStr ''mixed'')])
   \<and> map_option undefinedPaths
        (transformPackage (JObj [(''registryType'', JStr ''npm''), (''identifier'', JStr ''mixed'')]))
       = Some [[''version''], [''runtimeHint'']]
   \<and> set [[''version''], [''runtimeHint'']] \<subseteq> set optionalOfPackage"
proof -
  let ?pkg = "JObj [(''registryType'', JStr ''npm''), (''identifier'', JStr ''mixed'')]"
  note ev = transformDetail_def transformListItem_def transformPackage_def serverOf_def officialMeta_def
    js_filter_def supportedPackage_def js_includes_def SUPPORTED_REGISTRY_TYPES_def sameValueZero_def
    js_map_def getIconUrl_def repositoryOf_def named_def optGet_def orElse_def Let_def mixedRecord_def
  have j: "isJson mixedRecord" by (simp add: mixedRecord_def)
  have jp: "isJson ?pkg" by simp
  have d: "map_option undefinedPaths (transformDetail mixedRecord)
       = Some [[''packages'', ''version''], [''packages'', ''runtimeHint'']]"
    by (simp add: ev)
  have l: "map_option undefinedPaths (transformListItem mixedRecord) = Some []"
    by (simp add: ev)
  have p: "map_option undefinedPaths (transformPackage ?pkg) = Some [[''version''], [''runtimeHint'']]"
    by (simp add: ev)
  from d obtain detail where d1: "transformDetail mixedRecord = Some detail"
    and d2: "undefinedPaths detail = [[''packages'', ''version''], [''packages'', ''runtimeHint'']]"
    by auto
  from l obtain entry where l1: "transformListItem mixedRecord = Some entry" by auto
  from p obtain package where p1: "transformPackage ?pkg = Some package"
    and p2: "undefinedPaths package = [[''version''], [''runtimeHint'']]"
    by auto
  note t = transforms_define_all_but_optional [of mixedRecord entry ?pkg package detail]
  from t j d1 have "set (undefinedPaths detail) \<subseteq> set optionalOfDetail" by blast
  then have D: "set [[''packages'', ''version''], [''packages'', ''runtimeHint'']] \<subseteq> set optionalOfDetail"
    by (simp only: d2)
  from t jp p1 have "set (undefinedPaths package) \<subseteq> set optionalOfPackage" by blast
  then have P: "set [[''version''], [''runtimeHint'']] \<subseteq> set optionalOfPackage"
    by (simp only: p2)
  from j jp d l p D P show ?thesis by (intro conjI)
qed

text \<open>
  C7 as the specification words it fails: a package for which the registry gives no
  \<^verbatim>\<open>version\<close> and no \<^verbatim>\<open>runtimeHint\<close> comes out with both fields present and \<^verbatim>\<open>undefined\<close>.
\<close>

theorem transformPackage_undefined_counterexample:
  "transformPackage (JObj [(''registryType'', JStr ''npm''), (''identifier'', JStr ''weather'')])
     = Some (JObj
         [(''registryType'', JStr ''npm''),
          (''identifier'', JStr ''weather''),
          (''version'', JUndefined),
          (''runtimeHint'', JUndefined),
          (''transport'', JObj [(''type'', JStr ''stdio'')]),
          (''environmentVariables'', JArr []),
          (''packageArguments'', JArr []),
          (''runtimeArguments'', JArr [])])"
  by (simp add: transformPackage_def js_map_def named_def optGet_def orElse_def Let_def)

lemma transformPackage_registryType:
  "transformPackage pkg = Some p \<Longrightarrow>
     optGet p ''registryType'' = orElse (optGet pkg ''registryType'') (JStr ''npm'')"
  by (auto simp: transformPackage_def Let_def optGet_def split: Option.bind_splits dest!: get_Some_optGet)

lemma transformRemote_url:
  "transformRemote r = Some m \<Longrightarrow> optGet m ''url'' = orElse (optGet r ''url'') (JStr '''')"
  by (auto simp: transformRemote_def optGet_def split: Option.bind_splits)

lemma supportedType_orElse:
  "supportedType pkg \<Longrightarrow> orElse (optGet pkg ''registryType'') (JStr ''npm'') = optGet pkg ''registryType''"
  by (auto simp: supportedType_def orElse_def)

lemma transformDetail_packages:
  assumes "transformDetail item = Some out" "packagesOf item = JArr pkgs"
  shows "\<exists>ps. those (map transformPackage (filter supportedType pkgs)) = Some ps
     \<and> get out ''packages'' = Some (JArr ps)
     \<and> map (\<lambda>p. optGet p ''registryType'') ps
         = map (\<lambda>p. optGet p ''registryType'') (filter supportedType pkgs)"
proof -
  from assms(1) obtain supported packages where
    f: "js_filter supportedPackage (packagesOf item) = Some supported"
    and p: "those (map transformPackage supported) = Some packages"
    and o: "get out ''packages'' = Some (JArr packages)"
    by (rule transformDetail_Some) simp
  from f assms(2) have ft: "filterThrowing supportedPackage pkgs = Some supported"
    by (simp add: js_filter_def)
  from filterThrowing_supported [OF filterThrowing_Some [OF ft]] ft
  have s: "supported = filter supportedType pkgs" by simp
  have "list_all supportedType supported" unfolding s by (simp add: list_all_iff)
  with those_map_Some [OF p]
  have "map (\<lambda>p. optGet p ''registryType'') packages
         = map (\<lambda>p. optGet p ''registryType'') supported"
    by (induction supported packages rule: list_all2_induct)
      (simp_all add: transformPackage_registryType supportedType_orElse)
  with p o s show ?thesis by simp
qed

lemma transformDetail_remotes:
  assumes "transformDetail item = Some out" "remotesOf item = JArr rs"
  shows "\<exists>ms. those (map transformRemote rs) = Some ms
     \<and> get out ''remotes'' = Some (JArr (filter (\<lambda>r. truthy (optGet r ''url'')) ms))
     \<and> map (\<lambda>r. optGet r ''url'') (filter (\<lambda>r. truthy (optGet r ''url'')) ms)
         = filter truthy (map (\<lambda>r. optGet r ''url'') rs)"
proof -
  from assms(1) obtain mapped where
    m: "js_map transformRemote (remotesOf item) = Some mapped"
    and o: "get out ''remotes'' = Some (JArr (filter (\<lambda>r. truthy (optGet r ''url'')) mapped))"
    by (rule transformDetail_Some) simp
  from m assms(2) have t: "those (map transformRemote rs) = Some mapped"
    by (simp add: js_map_def)
  from those_map_Some [OF t]
  have "map (\<lambda>r. optGet r ''url'') (filter (\<lambda>r. truthy (optGet r ''url'')) mapped)
         = filter truthy (map (\<lambda>r. optGet r ''url'') rs)"
  proof (induction rs mapped rule: list_all2_induct)
    case Nil
    then show ?case by simp
  next
    case (Cons x xs y ys)
    then show ?case by (auto simp: transformRemote_url orElse_def)
  qed
  with t o show ?thesis by simp
qed

lemma those_map_total:
  "list_all (\<lambda>x. \<exists>y. f x = Some y) xs \<Longrightarrow> \<exists>ys. those (map f xs) = Some ys"
  by (induction xs) auto

lemma js_map_descriptors:
  assumes "descriptors v" "\<forall>x. nonNullish x \<longrightarrow> (\<exists>y. cb x = Some y)"
  shows "\<exists>ys. js_map cb (orElse v (JArr [])) = Some ys"
proof -
  from assms(1) obtain xs where v: "orElse v (JArr []) = JArr xs" and n: "list_all nonNullish xs"
    by (auto simp: descriptors_def split: jsval.splits)
  from n assms(2) have "list_all (\<lambda>x. \<exists>y. cb x = Some y) xs"
    by (simp add: list_all_iff)
  from those_map_total [OF this] show ?thesis by (simp add: v js_map_def)
qed

lemma environmentVariable_total: "nonNullish x \<Longrightarrow> \<exists>y. environmentVariable x = Some y"
  by (simp add: environmentVariable_def get_nonNullish)

lemma packageArgument_total: "nonNullish x \<Longrightarrow> \<exists>y. packageArgument x = Some y"
  by (simp add: packageArgument_def get_nonNullish)

lemma runtimeArgument_total: "nonNullish x \<Longrightarrow> \<exists>y. runtimeArgument x = Some y"
  by (simp add: runtimeArgument_def get_nonNullish)

lemma remoteHeader_total: "nonNullish x \<Longrightarrow> \<exists>y. remoteHeader x = Some y"
  by (simp add: remoteHeader_def get_nonNullish)

lemma transformPackage_total:
  assumes "readablePackage pkg"
  shows "\<exists>y. transformPackage pkg = Some y"
proof -
  from assms have nn: "nonNullish pkg" by (simp add: readablePackage_def)
  from assms obtain evs where
    e: "js_map environmentVariable (orElse (optGet pkg ''environmentVariables'') (JArr [])) = Some evs"
    using js_map_descriptors [where cb = environmentVariable] environmentVariable_total by (auto simp: readablePackage_def)
  from assms obtain pas where
    p: "js_map packageArgument (orElse (optGet pkg ''packageArguments'') (JArr [])) = Some pas"
    using js_map_descriptors [where cb = packageArgument] packageArgument_total by (auto simp: readablePackage_def)
  from assms obtain ras where
    r: "js_map runtimeArgument (orElse (optGet pkg ''runtimeArguments'') (JArr [])) = Some ras"
    using js_map_descriptors [where cb = runtimeArgument] runtimeArgument_total by (auto simp: readablePackage_def)
  show ?thesis by (simp add: transformPackage_def get_nonNullish [OF nn] Let_def e p r)
qed

lemma transformRemote_total:
  assumes "readableRemote remote"
  shows "\<exists>y. transformRemote remote = Some y"
proof -
  from assms have nn: "nonNullish remote" by (simp add: readableRemote_def)
  from assms obtain hs where
    h: "js_map remoteHeader (orElse (optGet remote ''headers'') (JArr [])) = Some hs"
    using js_map_descriptors [where cb = remoteHeader] remoteHeader_total by (auto simp: readableRemote_def)
  show ?thesis by (simp add: transformRemote_def get_nonNullish [OF nn] h)
qed

lemma getIconUrl_total:
  assumes "readableIcons icons"
  shows "\<exists>u. getIconUrl icons = Some u"
proof (cases icons)
  case (JArr xs)
  with assms have nn: "list_all nonNullish xs" by (simp add: readableIcons_def)
  note f = js_find_find [OF nn]
  have g: "\<And>p c. List.find p xs = Some c \<Longrightarrow> get c ''src'' = Some (optGet c ''src'')"
    using find_nonNullish [OF nn] by (simp add: get_nonNullish)
  show ?thesis unfolding JArr
    by (auto simp: getIconUrl_def f g split: option.splits)
qed (simp_all add: getIconUrl_def)

lemma transformDetail_total:
  assumes "transformable item"
  shows "\<exists>out. transformDetail item = Some out"
proof -
  let ?server = "orElse (optGet item ''server'') (JObj [])"
  from assms obtain pkgs rs where nn: "nonNullish item"
    and p: "packagesOf item = JArr pkgs" and pn: "list_all nonNullish pkgs"
    and pr: "list_all readablePackage (filter supportedType pkgs)"
    and r: "remotesOf item = JArr rs" and rr: "list_all readableRemote rs"
    and i: "readableIcons (optGet ?server ''icons'')"
    by (auto simp: transformable_def split: jsval.splits)
  have m: "officialMeta item = Some (metaOf item)"
    using nn by (simp add: officialMeta_def metaOf_def get_nonNullish)
  have f: "js_filter supportedPackage (packagesOf item) = Some (filter supportedType pkgs)"
    by (simp add: p js_filter_def filterThrowing_supported [OF pn])
  from pr have "list_all (\<lambda>x. \<exists>y. transformPackage x = Some y) (filter supportedType pkgs)"
    by (auto simp: list_all_iff intro: transformPackage_total)
  from those_map_total [OF this] obtain ps where
    t: "those (map transformPackage (filter supportedType pkgs)) = Some ps" by blast
  from rr have "list_all (\<lambda>x. \<exists>y. transformRemote x = Some y) rs"
    by (auto simp: list_all_iff intro: transformRemote_total)
  from those_map_total [OF this] obtain ms where
    tm: "js_map transformRemote (remotesOf item) = Some ms" by (auto simp: r js_map_def)
  from getIconUrl_total [OF i] obtain u where u: "getIconUrl (optGet ?server ''icons'') = Some u"
    by blast
  show ?thesis
    using f t tm u
    by (simp add: transformDetail_def serverOf_nonNullish [OF nn] m Let_def
        packagesOf_def [symmetric] remotesOf_def [symmetric])
qed

text \<open>
  C10. The detail record of a server holds only its packages of a supported type: when
  \<^verbatim>\<open>transformDetail\<close> returns for a record whose packages are the array \<open>pkgs\<close>, its
  \<^verbatim>\<open>packages\<close> are the images under \<^verbatim>\<open>transformPackage\<close> of the packages of \<open>pkgs\<close> whose
  \<^verbatim>\<open>registryType\<close> is \<^verbatim>\<open>npm\<close>, \<^verbatim>\<open>pypi\<close> or \<^verbatim>\<open>oci\<close>, in their order, each still of a supported
  type; the packages of any other type are absent. The remotes are all transformed, and
  the ones kept are those with a URL: the URLs of the remotes of the detail record are the
  non-empty URLs of the remotes of the input, in their order. \<^verbatim>\<open>transformDetail\<close> returns
  such a detail record for every record it can read: one that is not \<^verbatim>\<open>null\<close>, whose packages
  and remotes are absent or arrays, and whose lists of packages, remotes, environment
  variables, arguments, headers and icons hold no \<^verbatim>\<open>null\<close>.
\<close>

theorem transformDetail_keeps_supported_packages:
  "(transformDetail item = Some out \<and> packagesOf item = JArr pkgs \<longrightarrow>
      (\<exists>ps. those (map transformPackage (filter supportedType pkgs)) = Some ps
        \<and> get out ''packages'' = Some (JArr ps)
        \<and> length ps = length (filter supportedType pkgs)
        \<and> list_all supportedType ps))
   \<and> (transformDetail item = Some out \<and> remotesOf item = JArr rs \<longrightarrow>
      (\<exists>ms. those (map transformRemote rs) = Some ms
        \<and> get out ''remotes'' = Some (JArr (filter (\<lambda>r. truthy (optGet r ''url'')) ms))
        \<and> map (\<lambda>r. optGet r ''url'') (filter (\<lambda>r. truthy (optGet r ''url'')) ms)
            = filter truthy (map (\<lambda>r. optGet r ''url'') rs)))
   \<and> (transformable item \<longrightarrow>
      (\<exists>out pkgs rs ps ms. transformDetail item = Some out
        \<and> packagesOf item = JArr pkgs \<and> remotesOf item = JArr rs
        \<and> those (map transformPackage (filter supportedType pkgs)) = Some ps
        \<and> get out ''packages'' = Some (JArr ps)
        \<and> length ps = length (filter supportedType pkgs)
        \<and> list_all supportedType ps
        \<and> those (map transformRemote rs) = Some ms
        \<and> get out ''remotes'' = Some (JArr (filter (\<lambda>r. truthy (optGet r ''url'')) ms))
        \<and> map (\<lambda>r. optGet r ''url'') (filter (\<lambda>r. truthy (optGet r ''url'')) ms)
            = filter truthy (map (\<lambda>r. optGet r ''url'') rs)))"
proof -
  have 1: "\<exists>ps. those (map transformPackage (filter supportedType pkgs)) = Some ps
        \<and> get out ''packages'' = Some (JArr ps)
        \<and> length ps = length (filter supportedType pkgs)
        \<and> list_all supportedType ps"
    if a: "transformDetail item = Some out" and b: "packagesOf item = JArr pkgs" for out pkgs
  proof -
    from transformDetail_packages [OF a b] obtain ps where
      t: "those (map transformPackage (filter supportedType pkgs)) = Some ps"
      and g: "get out ''packages'' = Some (JArr ps)"
      and m: "map (\<lambda>p. optGet p ''registryType'') ps
         = map (\<lambda>p. optGet p ''registryType'') (filter supportedType pkgs)"
      by blast
    from m have l: "length ps = length (filter supportedType pkgs)" by (rule map_eq_imp_length_eq)
    have "set (map (\<lambda>p. optGet p ''registryType'') ps) \<subseteq> {JStr ''npm'', JStr ''pypi'', JStr ''oci''}"
      unfolding m by (auto simp: supportedType_def)
    then have "list_all supportedType ps"
      by (auto simp: list_all_iff supportedType_def)
    with t g l show ?thesis by blast
  qed
  have 2: "\<exists>ms. those (map transformRemote rs) = Some ms
        \<and> get out ''remotes'' = Some (JArr (filter (\<lambda>r. truthy (optGet r ''url'')) ms))
        \<and> map (\<lambda>r. optGet r ''url'') (filter (\<lambda>r. truthy (optGet r ''url'')) ms)
            = filter truthy (map (\<lambda>r. optGet r ''url'') rs)"
    if "transformDetail item = Some out" "remotesOf item = JArr rs" for out rs
    using that by (rule transformDetail_remotes)
  have 3: "\<exists>out pkgs rs ps ms. transformDetail item = Some out
        \<and> packagesOf item = JArr pkgs \<and> remotesOf item = JArr rs
        \<and> those (map transformPackage (filter supportedType pkgs)) = Some ps
        \<and> get out ''packages'' = Some (JArr ps)
        \<and> length ps = length (filter supportedType pkgs)
        \<and> list_all supportedType ps
        \<and> those (map transformRemote rs) = Some ms
        \<and> get out ''remotes'' = Some (JArr (filter (\<lambda>r. truthy (optGet r ''url'')) ms))
        \<and> map (\<lambda>r. optGet r ''url'') (filter (\<lambda>r. truthy (optGet r ''url'')) ms)
            = filter truthy (map (\<lambda>r. optGet r ''url'') rs)"
    if t: "transformable item"
  proof -
    from transformDetail_total [OF t] obtain out' where o: "transformDetail item = Some out'" by blast
    from t obtain pkgs' rs' where p: "packagesOf item = JArr pkgs'" and r: "remotesOf item = JArr rs'"
      by (auto simp: transformable_def split: jsval.splits)
    from 1 [OF o p] 2 [OF o r] o p r show ?thesis by blast
  qed
  from 1 [of out pkgs] 2 [of out rs] 3 show ?thesis by blast
qed

theorem transformDetail_keeps_supported_packages_witness:
  "transformable hybridRecord
   \<and> packagesOf hybridRecord =
      JArr [JObj [(''registryType'', JStr ''mcpb''), (''identifier'', JStr ''hybrid.mcpb'')],
            JObj [(''registryType'', JStr ''pypi''), (''identifier'', JStr ''hybrid'')]]
   \<and> remotesOf hybridRecord =
      JArr [JObj [(''type'', JStr ''sse''), (''url'', JStr ''https://example.com/sse'')],
            JObj [(''type'', JStr ''streamable-http'')]]
   \<and> map_option (\<lambda>d. (optGet d ''packages'', optGet d ''remotes'')) (transformDetail hybridRecord) =
       Some (JArr [JObj [(''registryType'', JStr ''pypi''), (''identifier'', JStr ''hybrid''),
                         (''version'', JUndefined), (''runtimeHint'', JUndefined),
                         (''transport'', JObj [(''type'', JStr ''stdio'')]),
                         (''environmentVariables'', JArr []), (''packageArguments'', JArr []),
                         (''runtimeArguments'', JArr [])]],
             JArr [JObj [(''type'', JStr ''sse''), (''url'', JStr ''https://example.com/sse''),
                         (''headers'', JArr [])]])
   \<and> (\<exists>out ps. transformDetail hybridRecord = Some out \<and> get out ''packages'' = Some (JArr ps)
         \<and> length ps = 1 \<and> list_all supportedType ps)
   \<and> (\<exists>out ms. transformDetail hybridRecord = Some out \<and> get out ''remotes'' = Some (JArr ms)
         \<and> map (\<lambda>r. optGet r ''url'') ms = [JStr ''https://example.com/sse''])"
proof -
  let ?p1 = "JObj [(''registryType'', JStr ''mcpb''), (''identifier'', JStr ''hybrid.mcpb'')]"
  let ?p2 = "JObj [(''registryType'', JStr ''pypi''), (''identifier'', JStr ''hybrid'')]"
  let ?r1 = "JObj [(''type'', JStr ''sse''), (''url'', JStr ''https://example.com/sse'')]"
  let ?r2 = "JObj [(''type'', JStr ''streamable-http'')]"
  note ev = transformDetail_def transformPackage_def transformRemote_def serverOf_def officialMeta_def
    js_filter_def supportedPackage_def js_includes_def SUPPORTED_REGISTRY_TYPES_def sameValueZero_def
    js_map_def getIconUrl_def repositoryOf_def named_def optGet_def orElse_def Let_def hybridRecord_def
  have p: "packagesOf hybridRecord = JArr [?p1, ?p2]"
    by (simp add: packagesOf_def hybridRecord_def optGet_def orElse_def)
  have r: "remotesOf hybridRecord = JArr [?r1, ?r2]"
    by (simp add: remotesOf_def hybridRecord_def optGet_def orElse_def)
  have e: "map_option (\<lambda>d. (optGet d ''packages'', optGet d ''remotes'')) (transformDetail hybridRecord) =
       Some (JArr [JObj [(''registryType'', JStr ''pypi''), (''identifier'', JStr ''hybrid''),
                         (''version'', JUndefined), (''runtimeHint'', JUndefined),
                         (''transport'', JObj [(''type'', JStr ''stdio'')]),
                         (''environmentVariables'', JArr []), (''packageArguments'', JArr []),
                         (''runtimeArguments'', JArr [])]],
             JArr [JObj [(''type'', JStr ''sse''), (''url'', JStr ''https://example.com/sse''),
                         (''headers'', JArr [])]])"
    by (simp add: ev)
  have tr: "transformable hybridRecord"
    by (simp add: transformable_def hybridRecord_def nonNullish_def packagesOf_def remotesOf_def
        readablePackage_def readableRemote_def readableIcons_def descriptors_def supportedType_def
        optGet_def orElse_def)
  with transformDetail_keeps_supported_packages [of hybridRecord]
  obtain out where o: "transformDetail hybridRecord = Some out" by blast
  have f: "filter supportedType [?p1, ?p2] = [?p2]"
    by (simp add: supportedType_def optGet_def)
  from transformDetail_keeps_supported_packages [of hybridRecord out "[?p1, ?p2]"] o p
  obtain ps where "get out ''packages'' = Some (JArr ps)"
    and "length ps = length (filter supportedType [?p1, ?p2])" and "list_all supportedType ps"
    by blast
  with o f have P: "\<exists>out ps. transformDetail hybridRecord = Some out \<and> get out ''packages'' = Some (JArr ps)
         \<and> length ps = 1 \<and> list_all supportedType ps"
    by auto
  have u: "filter truthy (map (\<lambda>r. optGet r ''url'') [?r1, ?r2]) = [JStr ''https://example.com/sse'']"
    by (simp add: optGet_def)
  from transformDetail_keeps_supported_packages [of hybridRecord out _ "[?r1, ?r2]"] o r
  obtain ms where "get out ''remotes'' = Some (JArr (filter (\<lambda>r. truthy (optGet r ''url'')) ms))"
    and "map (\<lambda>r. optGet r ''url'') (filter (\<lambda>r. truthy (optGet r ''url'')) ms)
            = filter truthy (map (\<lambda>r. optGet r ''url'') [?r1, ?r2])"
    by blast
  with o u have R: "\<exists>out ms. transformDetail hybridRecord = Some out \<and> get out ''remotes'' = Some (JArr ms)
         \<and> map (\<lambda>r. optGet r ''url'') ms = [JStr ''https://example.com/sse'']"
    by auto
  from tr p r e P R show ?thesis by (intro conjI)
qed

subsection \<open>Sorting the index by stars\<close>

lemma compareStars_Some:
  "compareStars m a b = Some c \<Longrightarrow> c = starCount m b - starCount m a"
  by (auto simp: compareStars_def starCount_def Let_def split: Option.bind_splits dest!: get_Some_optGet)

lemma compareStars_total:
  "nonNullish a \<Longrightarrow> nonNullish b \<Longrightarrow> \<exists>c. compareStars m a b = Some c"
  by (simp add: compareStars_def get_nonNullish Let_def)

lemma insertBy_mset:
  "insertBy cmp x ys = Some zs \<Longrightarrow> mset zs = add_mset x (mset ys)"
  by (induction ys arbitrary: zs) (auto split: option.splits if_splits)

lemma insertBy_sorted:
  assumes "insertBy (compareStars m) x ys = Some zs"
    and "sorted_wrt (\<lambda>a b. starCount m a \<ge> starCount m b) ys"
  shows "sorted_wrt (\<lambda>a b. starCount m a \<ge> starCount m b) zs"
  using assms
proof (induction ys arbitrary: zs)
  case Nil
  then show ?case by auto
next
  case (Cons y ys)
  from Cons.prems(1) obtain c where c: "compareStars m x y = Some c"
    by (auto split: option.splits)
  note d = compareStars_Some [OF c]
  show ?case
  proof (cases "c \<le> 0")
    case True
    with Cons.prems c d show ?thesis by fastforce
  next
    case False
    with Cons.prems(1) c obtain zs' where z: "insertBy (compareStars m) x ys = Some zs'"
      and zs: "zs = y # zs'"
      by auto
    from Cons.IH [OF z] Cons.prems(2) have s: "sorted_wrt (\<lambda>a b. starCount m a \<ge> starCount m b) zs'"
      by simp
    have "set zs' = insert x (set ys)"
      using insertBy_mset [OF z] by (metis set_mset_add_mset_insert set_mset_mset)
    with s Cons.prems(2) False d show ?thesis unfolding zs by auto
  qed
qed

lemma insertBy_stable:
  assumes "insertBy (compareStars m) x ys = Some zs"
  shows "filter (\<lambda>i. starCount m i = k) zs
     = (if starCount m x = k then x # filter (\<lambda>i. starCount m i = k) ys
        else filter (\<lambda>i. starCount m i = k) ys)"
  using assms
proof (induction ys arbitrary: zs)
  case Nil
  then show ?case by auto
next
  case (Cons y ys)
  from Cons.prems(1) obtain c where c: "compareStars m x y = Some c"
    by (auto split: option.splits)
  note d = compareStars_Some [OF c]
  show ?case
  proof (cases "c \<le> 0")
    case True
    with Cons.prems c show ?thesis by auto
  next
    case False
    with Cons.prems(1) c obtain zs' where z: "insertBy (compareStars m) x ys = Some zs'"
      and zs: "zs = y # zs'"
      by auto
    from Cons.IH [OF z] False d show ?thesis unfolding zs by auto
  qed
qed

lemma js_sort_sorted:
  "js_sort (compareStars m) xs = Some ys \<Longrightarrow> sorted_wrt (\<lambda>a b. starCount m a \<ge> starCount m b) ys"
proof (induction xs arbitrary: ys)
  case Nil
  then show ?case by simp
next
  case (Cons x xs)
  then obtain zs where "js_sort (compareStars m) xs = Some zs" "insertBy (compareStars m) x zs = Some ys"
    by (auto split: option.splits)
  with Cons.IH show ?case by (blast intro: insertBy_sorted)
qed

lemma js_sort_mset: "js_sort cmp xs = Some ys \<Longrightarrow> mset ys = mset xs"
  by (induction xs arbitrary: ys) (auto split: option.splits dest: insertBy_mset)

lemma js_sort_stable:
  "js_sort (compareStars m) xs = Some ys \<Longrightarrow>
     filter (\<lambda>i. starCount m i = k) ys = filter (\<lambda>i. starCount m i = k) xs"
proof (induction xs arbitrary: ys)
  case Nil
  then show ?case by simp
next
  case (Cons x xs)
  then obtain zs where z: "js_sort (compareStars m) xs = Some zs"
    and i: "insertBy (compareStars m) x zs = Some ys"
    by (auto split: option.splits)
  from insertBy_stable [OF i, of k] Cons.IH [OF z] show ?case by simp
qed

lemma insertBy_total:
  "nonNullish x \<Longrightarrow> list_all nonNullish ys \<Longrightarrow> \<exists>zs. insertBy (compareStars m) x ys = Some zs"
proof (induction ys)
  case Nil
  then show ?case by simp
next
  case (Cons y ys)
  then obtain c where "compareStars m x y = Some c"
    using compareStars_total [of x y m] by auto
  with Cons show ?case by auto
qed

lemma js_sort_total:
  "list_all nonNullish xs \<Longrightarrow> \<exists>ys. js_sort (compareStars m) xs = Some ys"
proof (induction xs)
  case Nil
  then show ?case by simp
next
  case (Cons x xs)
  then obtain zs where z: "js_sort (compareStars m) xs = Some zs" by auto
  then have "set zs = set xs" using js_sort_mset [OF z] by (metis set_mset_mset)
  with Cons.prems have "list_all nonNullish zs" by (simp add: list_all_iff)
  with Cons.prems insertBy_total [of x zs m] z show ?case by auto
qed

text \<open>
  C6. The sort of the index is a stable descending sort by star count, a missing entry of
  the star Map counting as 0: when the sort returns, each element of the sorted list has
  at least as many stars as the next one (and as every later one), the elements of any one
  star count appear in the order they had in the list before the sort, and the sorted list
  is a rearrangement of that list. The sort returns for every list of records none of
  which is \<^verbatim>\<open>null\<close>.
\<close>

theorem sortByStars_stable_descending:
  "(sortByStars serverStars serverList = Some out \<longrightarrow>
      (\<forall>i. Suc i < length out \<longrightarrow>
          starCount serverStars (out ! i) \<ge> starCount serverStars (out ! Suc i))
      \<and> sorted_wrt (\<lambda>a b. starCount serverStars a \<ge> starCount serverStars b) out
      \<and> (\<forall>k. filter (\<lambda>x. starCount serverStars x = k) out
              = filter (\<lambda>x. starCount serverStars x = k) serverList)
      \<and> mset out = mset serverList)
   \<and> (list_all nonNullish serverList \<longrightarrow> (\<exists>out. sortByStars serverStars serverList = Some out))"
proof -
  have 1: "(\<forall>i. Suc i < length out \<longrightarrow>
          starCount serverStars (out ! i) \<ge> starCount serverStars (out ! Suc i))
      \<and> sorted_wrt (\<lambda>a b. starCount serverStars a \<ge> starCount serverStars b) out
      \<and> (\<forall>k. filter (\<lambda>x. starCount serverStars x = k) out
              = filter (\<lambda>x. starCount serverStars x = k) serverList)
      \<and> mset out = mset serverList"
    if "sortByStars serverStars serverList = Some out"
  proof -
    from that have s: "js_sort (compareStars serverStars) serverList = Some out"
      by (simp add: sortByStars_def)
    note w = js_sort_sorted [OF s]
    have "starCount serverStars (out ! i) \<ge> starCount serverStars (out ! Suc i)"
      if "Suc i < length out" for i
      using sorted_wrt_nth_less [OF w, of i "Suc i"] that by simp
    with w js_sort_stable [OF s] js_sort_mset [OF s] show ?thesis by blast
  qed
  have 2: "\<exists>out. sortByStars serverStars serverList = Some out" if "list_all nonNullish serverList"
    using js_sort_total [OF that] by (simp add: sortByStars_def)
  from 1 2 show ?thesis by blast
qed

theorem sortByStars_stable_descending_witness:
  "list_all nonNullish
      [namedRecord ''a'', namedRecord ''b'', namedRecord ''c'', namedRecord ''d'', namedRecord ''e'']
   \<and> sortByStars exampleStars
        [namedRecord ''a'', namedRecord ''b'', namedRecord ''c'', namedRecord ''d'', namedRecord ''e'']
      = Some [namedRecord ''b'', namedRecord ''a'', namedRecord ''c'', namedRecord ''d'', namedRecord ''e'']
   \<and> map (starCount exampleStars)
        [namedRecord ''b'', namedRecord ''a'', namedRecord ''c'', namedRecord ''d'', namedRecord ''e'']
      = [120, 5, 5, 0, 0]
   \<and> filter (\<lambda>x. starCount exampleStars x = 5)
        [namedRecord ''b'', namedRecord ''a'', namedRecord ''c'', namedRecord ''d'', namedRecord ''e'']
      = filter (\<lambda>x. starCount exampleStars x = 5)
        [namedRecord ''a'', namedRecord ''b'', namedRecord ''c'', namedRecord ''d'', namedRecord ''e'']"
proof -
  let ?xs = "[namedRecord ''a'', namedRecord ''b'', namedRecord ''c'', namedRecord ''d'', namedRecord ''e'']"
  let ?ys = "[namedRecord ''b'', namedRecord ''a'', namedRecord ''c'', namedRecord ''d'', namedRecord ''e'']"
  have n: "list_all nonNullish ?xs" by (simp add: nonNullish_def namedRecord_def)
  have s: "sortByStars exampleStars ?xs = Some ?ys"
    by (simp add: sortByStars_def compareStars_def exampleStars_def namedRecord_def optGet_def
        sameValueZero_def Let_def)
  have c: "map (starCount exampleStars) ?ys = [120, 5, 5, 0, 0]"
    by (simp add: starCount_def exampleStars_def namedRecord_def optGet_def sameValueZero_def)
  from sortByStars_stable_descending [of exampleStars ?xs ?ys] s
  have "filter (\<lambda>x. starCount exampleStars x = 5) ?ys = filter (\<lambda>x. starCount exampleStars x = 5) ?xs"
    by blast
  with n s c show ?thesis by (intro conjI)
qed

subsection \<open>GitHub enrichment\<close>

lemma parseGitHubUrl_string: "\<exists>r. parseGitHubUrl (JStr u) = Some r"
  by (auto simp: parseGitHubUrl_def split: option.splits)

lemma getGitHubStars_total: "\<exists>v st'. getGitHubStars net st (JStr u) = Some (v, st')"
proof -
  from parseGitHubUrl_string obtain r where "parseGitHubUrl (JStr u) = Some r" by blast
  then show ?thesis
    by (auto simp: getGitHubStars_def Let_def split: option.splits)
qed

lemma getGitHubStars_unparseable:
  "parseGitHubUrl url = Some None \<Longrightarrow> getGitHubStars net st url = Some (JNum 0, st)"
  by (simp add: getGitHubStars_def)

lemma getGitHubStars_hit:
  "parseGitHubUrl url = Some (Some p) \<Longrightarrow> starCache st (cacheKey p) = Some v \<Longrightarrow>
     getGitHubStars net st url = Some (v, st)"
  by (simp add: getGitHubStars_def)

lemma getGitHubStars_miss:
  "parseGitHubUrl url = Some (Some p) \<Longrightarrow> starCache st (cacheKey p) = None \<Longrightarrow>
     getGitHubStars net st url =
       Some (case tryBlock (net (length (requests st)) (apiUrl p)) of Some s \<Rightarrow> s | None \<Rightarrow> JNum 0,
             st\<lparr>starCache := (starCache st)(cacheKey p \<mapsto>
                    (case tryBlock (net (length (requests st)) (apiUrl p)) of Some s \<Rightarrow> s | None \<Rightarrow> JNum 0)),
                requests := requests st @ [apiUrl p]\<rparr>)"
  by (simp add: getGitHubStars_def Let_def)

lemma tryBlock_failure:
  "r = NetworkError \<or> r = Response False body \<or> r = Response True None \<Longrightarrow>
     (case tryBlock r of Some s \<Rightarrow> s | None \<Rightarrow> JNum 0) = JNum 0"
  by (auto simp: tryBlock_def)

lemma getGitHubStars_step:
  assumes "getGitHubStars net st url = Some (v, st')"
  shows "st' = st \<or> (\<exists>p. starCache st (cacheKey p) = None
           \<and> st' = st\<lparr>starCache := (starCache st)(cacheKey p \<mapsto> v), requests := requests st @ [apiUrl p]\<rparr>)"
  using assms
  by (auto simp: getGitHubStars_def Let_def split: Option.bind_splits option.splits)

lemma getGitHubStars_cached:
  assumes "getGitHubStars net st url = Some (v, st')" "parseGitHubUrl url = Some (Some p)"
  shows "starCache st' (cacheKey p) = Some v \<and> length (requests st') \<le> length (requests st) + 1"
  using assms
  by (auto simp: getGitHubStars_def Let_def split: option.splits)

lemma calls_keep_cache:
  "calls net st st' \<Longrightarrow> starCache st k = Some v \<Longrightarrow> starCache st' k = Some v"
proof (induction rule: calls.induct)
  case (calls_none st)
  then show ?case by simp
next
  case (calls_more st st1 url w st2)
  then have c: "starCache st1 k = Some v" by simp
  from getGitHubStars_step [OF calls_more.hyps(2)] c show ?case by auto
qed

lemma apiUrl_cacheKey: "apiUrl p = requestFor (cacheKey p)"
  by (simp add: apiUrl_def cacheKey_def requestFor_def)

lemma requestFor_inj: "requestFor k = requestFor k' \<Longrightarrow> k = k'"
  by (simp add: requestFor_def)

lemma getGitHubStars_logged:
  assumes "getGitHubStars net st url = Some (v, st')" "logged st"
  shows "logged st'"
proof -
  from getGitHubStars_step [OF assms(1)] show ?thesis
  proof
    assume "st' = st"
    with assms(2) show ?thesis by simp
  next
    assume "\<exists>p. starCache st (cacheKey p) = None
           \<and> st' = st\<lparr>starCache := (starCache st)(cacheKey p \<mapsto> v), requests := requests st @ [apiUrl p]\<rparr>"
    then obtain p where n: "starCache st (cacheKey p) = None"
      and s: "st' = st\<lparr>starCache := (starCache st)(cacheKey p \<mapsto> v), requests := requests st @ [apiUrl p]\<rparr>"
      by blast
    have "requestFor (cacheKey p) \<notin> set (requests st)"
    proof
      assume "requestFor (cacheKey p) \<in> set (requests st)"
      with assms(2) obtain k where k: "k \<in> dom (starCache st)"
        and "requestFor (cacheKey p) = requestFor k"
        unfolding logged_def by blast
      then have "k = cacheKey p" by (simp add: requestFor_inj)
      with k n show False by auto
    qed
    with assms(2) show ?thesis unfolding s logged_def apiUrl_cacheKey
      by auto
  qed
qed

lemma calls_logged: "calls net st st' \<Longrightarrow> logged st \<Longrightarrow> logged st'"
  by (induction rule: calls.induct) (auto intro: getGitHubStars_logged)

lemma logged_initialState: "logged initialState"
  by (simp add: logged_def initialState_def)

lemma distinct_filter_eq_le1: "distinct xs \<Longrightarrow> length (filter (\<lambda>r. r = x) xs) \<le> 1"
  by (induction xs) (auto simp: filter_empty_conv)

text \<open>
  C5. \<^verbatim>\<open>getGitHubStars\<close> never raises for a repository URL (a string) and is memoized. For
  the URLs \<^verbatim>\<open>""\<close> and \<^verbatim>\<open>"not-a-url"\<close>, and for every URL \<^verbatim>\<open>parseGitHubUrl\<close> cannot parse, it
  returns 0 and leaves the cache and the request log as they were: no request is sent.
  For every string it returns a value. On a cache miss, when \<^verbatim>\<open>fetch\<close> rejects, the response
  is not \<^verbatim>\<open>ok\<close>, \<^verbatim>\<open>response.json()\<close> rejects or the body is \<^verbatim>\<open>null\<close>, it returns 0 and caches 0
  after its one request. A call for a parseable URL sends at most one request, and any
  later call of the run for the same URL, whatever calls come between, returns the same
  value from the cache and sends none. In a run that starts with an empty cache no
  request URL is sent twice: at most one request per \<^verbatim>\<open>owner/repo\<close> key.
\<close>

theorem getGitHubStars_safe_and_memoized:
  "getGitHubStars net st (JStr '''') = Some (JNum 0, st)
   \<and> getGitHubStars net st (JStr ''not-a-url'') = Some (JNum 0, st)
   \<and> (parseGitHubUrl (JStr u) = Some None \<longrightarrow> getGitHubStars net st (JStr u) = Some (JNum 0, st))
   \<and> (\<exists>v st'. getGitHubStars net st (JStr u) = Some (v, st'))
   \<and> (parseGitHubUrl (JStr u) = Some (Some p) \<and> starCache st (cacheKey p) = None
        \<and> (net (length (requests st)) (apiUrl p) = NetworkError
           \<or> net (length (requests st)) (apiUrl p) = Response False body
           \<or> net (length (requests st)) (apiUrl p) = Response True None
           \<or> net (length (requests st)) (apiUrl p) = Response True (Some JNull)) \<longrightarrow>
        getGitHubStars net st (JStr u) =
          Some (JNum 0, st\<lparr>starCache := (starCache st)(cacheKey p \<mapsto> JNum 0),
                          requests := requests st @ [apiUrl p]\<rparr>))
   \<and> (parseGitHubUrl (JStr u) = Some (Some p) \<and> getGitHubStars net st (JStr u) = Some (v, st1)
        \<and> calls net st1 st2 \<longrightarrow>
        length (requests st1) \<le> length (requests st) + 1
        \<and> getGitHubStars net st2 (JStr u) = Some (v, st2))
   \<and> (calls net initialState st3 \<longrightarrow>
        distinct (requests st3) \<and> length (filter (\<lambda>r. r = apiUrl p) (requests st3)) \<le> 1)"
proof -
  have 1: "getGitHubStars net st (JStr '''') = Some (JNum 0, st)"
    by (simp add: getGitHubStars_def parseGitHubUrl_def)
  have 2: "getGitHubStars net st (JStr ''not-a-url'') = Some (JNum 0, st)"
    by (simp add: getGitHubStars_def parseGitHubUrl_def ownerAndRepo_def)
  have 5: "getGitHubStars net st (JStr u) =
          Some (JNum 0, st\<lparr>starCache := (starCache st)(cacheKey p \<mapsto> JNum 0),
                          requests := requests st @ [apiUrl p]\<rparr>)"
    if "parseGitHubUrl (JStr u) = Some (Some p)" "starCache st (cacheKey p) = None"
      "net (length (requests st)) (apiUrl p) = NetworkError
           \<or> net (length (requests st)) (apiUrl p) = Response False body
           \<or> net (length (requests st)) (apiUrl p) = Response True None
           \<or> net (length (requests st)) (apiUrl p) = Response True (Some JNull)"
  proof -
    from that(3) have "(case tryBlock (net (length (requests st)) (apiUrl p)) of
        Some s \<Rightarrow> s | None \<Rightarrow> JNum 0) = JNum 0"
      by (auto simp: tryBlock_def)
    with getGitHubStars_miss [OF that(1,2), of net] show ?thesis by simp
  qed
  have 6: "length (requests st1) \<le> length (requests st) + 1
        \<and> getGitHubStars net st2 (JStr u) = Some (v, st2)"
    if "parseGitHubUrl (JStr u) = Some (Some p)" "getGitHubStars net st (JStr u) = Some (v, st1)"
      "calls net st1 st2"
  proof -
    from getGitHubStars_cached [OF that(2,1)]
    have c: "starCache st1 (cacheKey p) = Some v" and l: "length (requests st1) \<le> length (requests st) + 1"
      by simp_all
    from calls_keep_cache [OF that(3) c] have "starCache st2 (cacheKey p) = Some v" .
    from getGitHubStars_hit [OF that(1) this] l show ?thesis by simp
  qed
  have 7: "distinct (requests st3) \<and> length (filter (\<lambda>r. r = apiUrl p) (requests st3)) \<le> 1"
    if "calls net initialState st3"
  proof -
    from calls_logged [OF that logged_initialState] have "distinct (requests st3)"
      by (simp add: logged_def)
    with distinct_filter_eq_le1 [of "requests st3" "apiUrl p"] show ?thesis by simp
  qed
  from 1 2 getGitHubStars_unparseable [of "JStr u" net st] getGitHubStars_total [of net st u] 5 6 7
  show ?thesis by blast
qed

theorem getGitHubStars_safe_and_memoized_witness:
  "parseGitHubUrl (JStr ''https://github.com/octocat/hello.git'')
      = Some (Some \<lparr>owner = ''octocat'', repo = ''hello''\<rparr>)
   \<and> parseGitHubUrl (JStr ''https://example.com/octocat/hello'') = Some None
   \<and> (\<exists>st1 st2.
        getGitHubStars exampleNetwork initialState (JStr ''https://github.com/octocat/hello.git'')
          = Some (JNum 42, st1)
        \<and> requests st1 = [''https://api.github.com/repos/octocat/hello'']
        \<and> getGitHubStars exampleNetwork st1 (JStr ''git@github.com:nobody/missing'') = Some (JNum 0, st2)
        \<and> requests st2 = [''https://api.github.com/repos/octocat/hello'',
                           ''https://api.github.com/repos/nobody/missing'']
        \<and> getGitHubStars exampleNetwork st2 (JStr ''https://example.com/octocat/hello'') = Some (JNum 0, st2)
        \<and> getGitHubStars exampleNetwork st2 (JStr ''https://github.com/octocat/hello.git'')
          = Some (JNum 42, st2)
        \<and> distinct (requests st2))"
proof -
  let ?u = "''https://github.com/octocat/hello.git''"
  let ?w = "''git@github.com:nobody/missing''"
  let ?x = "''https://example.com/octocat/hello''"
  let ?p = "\<lparr>owner = ''octocat'', repo = ''hello''\<rparr>"
  let ?q = "\<lparr>owner = ''nobody'', repo = ''missing''\<rparr>"
  note t = getGitHubStars_safe_and_memoized
  have pu: "parseGitHubUrl (JStr ?u) = Some (Some ?p)"
    by (simp add: parseGitHubUrl_def ownerAndRepo_def stripGit_def)
  have pw: "parseGitHubUrl (JStr ?w) = Some (Some ?q)"
    by (simp add: parseGitHubUrl_def ownerAndRepo_def stripGit_def)
  have px: "parseGitHubUrl (JStr ?x) = Some None"
    by (simp add: parseGitHubUrl_def ownerAndRepo_def)
  define st1 where "st1 = initialState\<lparr>starCache := (starCache initialState)(cacheKey ?p \<mapsto> JNum 42),
      requests := requests initialState @ [apiUrl ?p]\<rparr>"
  have 1: "getGitHubStars exampleNetwork initialState (JStr ?u) = Some (JNum 42, st1)"
    using getGitHubStars_miss [OF pu, of initialState exampleNetwork]
    by (simp add: st1_def initialState_def exampleNetwork_def apiUrl_def GITHUB_API_BASE_def tryBlock_def
        orElse_def)
  have r1: "requests st1 = [''https://api.github.com/repos/octocat/hello'']"
    by (simp add: st1_def initialState_def apiUrl_def GITHUB_API_BASE_def)
  define st2 where "st2 = st1\<lparr>starCache := (starCache st1)(cacheKey ?q \<mapsto> JNum 0),
      requests := requests st1 @ [apiUrl ?q]\<rparr>"
  have m: "starCache st1 (cacheKey ?q) = None"
    by (simp add: st1_def initialState_def cacheKey_def)
  have n: "exampleNetwork (length (requests st1)) (apiUrl ?q) = NetworkError"
    by (simp add: exampleNetwork_def apiUrl_def GITHUB_API_BASE_def)
  from t [of exampleNetwork st1 ?w ?q] pw m n
  have 2: "getGitHubStars exampleNetwork st1 (JStr ?w) = Some (JNum 0, st2)"
    unfolding st2_def by blast
  have r2: "requests st2 = [''https://api.github.com/repos/octocat/hello'',
                           ''https://api.github.com/repos/nobody/missing'']"
    by (simp add: st2_def r1 apiUrl_def GITHUB_API_BASE_def)
  from t [of exampleNetwork st2 ?x] px
  have 3: "getGitHubStars exampleNetwork st2 (JStr ?x) = Some (JNum 0, st2)" by blast
  have c12: "calls exampleNetwork st1 st2"
    by (rule calls_more [OF calls_none 2])
  from t [of exampleNetwork initialState ?u ?p _ "JNum 42" st1 st2] pu 1 c12
  have 4: "getGitHubStars exampleNetwork st2 (JStr ?u) = Some (JNum 42, st2)" by blast
  have "calls exampleNetwork initialState st2"
    by (rule calls_more [OF calls_more [OF calls_none 1] 2])
  with t [of exampleNetwork _ _ _ _ _ _ _ st2] have 5: "distinct (requests st2)" by blast
  from 1 r1 2 r2 3 4 5 have "\<exists>st1 st2.
        getGitHubStars exampleNetwork initialState (JStr ?u) = Some (JNum 42, st1)
        \<and> requests st1 = [''https://api.github.com/repos/octocat/hello'']
        \<and> getGitHubStars exampleNetwork st1 (JStr ?w) = Some (JNum 0, st2)
        \<and> requests st2 = [''https://api.github.com/repos/octocat/hello'',
                           ''https://api.github.com/repos/nobody/missing'']
        \<and> getGitHubStars exampleNetwork st2 (JStr ?x) = Some (JNum 0, st2)
        \<and> getGitHubStars exampleNetwork st2 (JStr ?u) = Some (JNum 42, st2)
        \<and> distinct (requests st2)"
    by (intro exI conjI)
  with pu px show ?thesis by (intro conjI)
qed

end
